theory Spec2Isabelle
  imports Main
begin

section \<open>Python values, errors and dictionaries\<close>

text \<open>
  The exceptions the modelled code can raise. \<open>AppendRejected\<close> is the failure of the
  external event log when an append follows a FINALIZED event.
\<close>

datatype py_error = IndexError | KeyError | AttributeError | TypeError | AppendRejected

text \<open>
  The values that occur in event payloads: \<open>None\<close>, booleans, integers, strings,
  position tuples and lists of row indices. A payload is a Python \<open>dict\<close> with string
  keys, kept as an association list in insertion order.
\<close>

datatype pyval =
    VNone
  | VBool bool
  | VInt int
  | VStr string
  | VTuple int int
  | VList "int list"

type_synonym dict = "(string \<times> pyval) list"

definition dict_get :: "dict \<Rightarrow> string \<Rightarrow> pyval option" where
  "dict_get d k = map_of d k"

fun dict_set :: "dict \<Rightarrow> string \<Rightarrow> pyval \<Rightarrow> dict" where
  "dict_set [] k v = [(k, v)]"
| "dict_set ((k', v') # d) k v = (if k' = k then (k, v) # d else (k', v') # dict_set d k v)"

text \<open>\<open>{**a, **b}\<close>: the entries of \<open>b\<close> are written into \<open>a\<close> one by one.\<close>

fun dict_merge :: "dict \<Rightarrow> dict \<Rightarrow> dict" where
  "dict_merge a [] = a"
| "dict_merge a ((k, v) # b) = dict_merge (dict_set a k v) b"

text \<open>
  Python resolves an index \<open>i\<close> into a list of length \<open>len\<close>: from the front when it
  is not negative, from the end when it is; anything else is out of range.
\<close>

definition py_position :: "nat \<Rightarrow> int \<Rightarrow> nat option" where
  "py_position len i =
     (if 0 \<le> i \<and> i < int len then Some (nat i)
      else if i < 0 \<and> - int len \<le> i then Some (nat (int len + i))
      else None)"

text \<open>\<open>xs[i]\<close>.\<close>

definition py_index :: "'a list \<Rightarrow> int \<Rightarrow> py_error + 'a" where
  "py_index xs i =
     (case py_position (length xs) i of
        None \<Rightarrow> Inl IndexError
      | Some j \<Rightarrow> Inr (xs ! j))"

text \<open>\<open>xs[i] = v\<close>.\<close>

definition py_setitem :: "'a list \<Rightarrow> int \<Rightarrow> 'a \<Rightarrow> py_error + 'a list" where
  "py_setitem xs i v =
     (case py_position (length xs) i of
        None \<Rightarrow> Inl IndexError
      | Some j \<Rightarrow> Inr (xs[j := v]))"

text \<open>\<open>xs.pop(i)\<close>, keeping the list that remains.\<close>

definition py_pop :: "'a list \<Rightarrow> int \<Rightarrow> py_error + 'a list" where
  "py_pop xs i =
     (case py_position (length xs) i of
        None \<Rightarrow> Inl IndexError
      | Some j \<Rightarrow> Inr (take j xs @ drop (Suc j) xs))"

section \<open>tetris\_engine.py\<close>

datatype TetrisAction =
    SPAWN_PIECE
  | MOVE_LEFT
  | MOVE_RIGHT
  | MOVE_DOWN
  | ROTATE_CW
  | ROTATE_CCW
  | HARD_DROP
  | LINE_CLEAR
  | GAME_OVER

fun action_value :: "TetrisAction \<Rightarrow> string" where
  "action_value SPAWN_PIECE = ''SPAWN_PIECE''"
| "action_value MOVE_LEFT = ''MOVE_LEFT''"
| "action_value MOVE_RIGHT = ''MOVE_RIGHT''"
| "action_value MOVE_DOWN = ''MOVE_DOWN''"
| "action_value ROTATE_CW = ''ROTATE_CW''"
| "action_value ROTATE_CCW = ''ROTATE_CCW''"
| "action_value HARD_DROP = ''HARD_DROP''"
| "action_value LINE_CLEAR = ''LINE_CLEAR''"
| "action_value GAME_OVER = ''GAME_OVER''"

datatype Tetromino = Tet_I | Tet_O | Tet_T | Tet_S | Tet_Z | Tet_J | Tet_L

fun tetromino_value :: "Tetromino \<Rightarrow> string" where
  "tetromino_value Tet_I = ''I''"
| "tetromino_value Tet_O = ''O''"
| "tetromino_value Tet_T = ''T''"
| "tetromino_value Tet_S = ''S''"
| "tetromino_value Tet_Z = ''Z''"
| "tetromino_value Tet_J = ''J''"
| "tetromino_value Tet_L = ''L''"

fun SHAPES :: "Tetromino \<Rightarrow> (int \<times> int) list" where
  "SHAPES Tet_I = [(0, 0), (0, 1), (0, 2), (0, 3)]"
| "SHAPES Tet_O = [(0, 0), (0, 1), (1, 0), (1, 1)]"
| "SHAPES Tet_T = [(0, 1), (1, 0), (1, 1), (1, 2)]"
| "SHAPES Tet_S = [(0, 1), (0, 2), (1, 0), (1, 1)]"
| "SHAPES Tet_Z = [(0, 0), (0, 1), (1, 1), (1, 2)]"
| "SHAPES Tet_J = [(0, 0), (1, 0), (1, 1), (1, 2)]"
| "SHAPES Tet_L = [(0, 2), (1, 0), (1, 1), (1, 2)]"

type_synonym cell = "string option"
type_synonym grid = "cell list list"

record GameState =
  board :: grid
  current_piece :: "Tetromino option"
  current_pos :: "int \<times> int"
  current_rotation :: int
  score :: int
  lines_cleared :: int
  game_over :: bool
  move_count :: int

text \<open>\<open>GameState.new_game(rows, cols)\<close>; a negative \<open>range\<close> bound gives no elements.\<close>

definition new_game :: "int \<Rightarrow> int \<Rightarrow> GameState" where
  "new_game r c =
     \<lparr> board = replicate (nat r) (replicate (nat c) None),
       current_piece = None,
       current_pos = (0, 3),
       current_rotation = 0,
       score = 0,
       lines_cleared = 0,
       game_over = False,
       move_count = 0 \<rparr>"

record TetrisEngine =
  rows :: int
  cols :: int

text \<open>One pass of the rotation loop: \<open>[(dc, -dr) for dr, dc in blocks]\<close>.\<close>

definition rotate_blocks :: "(int \<times> int) list \<Rightarrow> (int \<times> int) list" where
  "rotate_blocks blocks = map (\<lambda>(dr, dc). (dc, - dr)) blocks"

fun rotate_times :: "nat \<Rightarrow> (int \<times> int) list \<Rightarrow> (int \<times> int) list" where
  "rotate_times 0 blocks = blocks"
| "rotate_times (Suc n) blocks = rotate_times n (rotate_blocks blocks)"

text \<open>
  \<open>_get_piece_blocks\<close>: \<open>SHAPES[piece]\<close> raises \<open>KeyError\<close> when the piece is \<open>None\<close>;
  \<open>range(rotation)\<close> is empty for a negative rotation.
\<close>

definition get_piece_blocks :: "Tetromino option \<Rightarrow> int \<Rightarrow> py_error + (int \<times> int) list" where
  "get_piece_blocks piece rotation =
     (case piece of
        None \<Rightarrow> Inl KeyError
      | Some p \<Rightarrow> Inr (rotate_times (nat rotation) (SHAPES p)))"

text \<open>The loop of \<open>_check_collision\<close> over the piece's blocks.\<close>

fun collision_loop :: "TetrisEngine \<Rightarrow> GameState \<Rightarrow> (int \<times> int) list \<Rightarrow> py_error + bool" where
  "collision_loop E s [] = Inr False"
| "collision_loop E s ((dr, dc) # bs) =
     (let row = fst (current_pos s) + dr;
          col = snd (current_pos s) + dc
      in if row < 0 \<or> row \<ge> rows E \<or> col < 0 \<or> col \<ge> cols E then Inr True
         else (case py_index (board s) row of
                 Inl e \<Rightarrow> Inl e
               | Inr cells \<Rightarrow>
                   (case py_index cells col of
                      Inl e \<Rightarrow> Inl e
                    | Inr c \<Rightarrow> if c \<noteq> None then Inr True else collision_loop E s bs)))"

definition check_collision :: "TetrisEngine \<Rightarrow> GameState \<Rightarrow> py_error + bool" where
  "check_collision E s =
     (if current_piece s = None then Inr False
      else (case get_piece_blocks (current_piece s) (current_rotation s) of
              Inl e \<Rightarrow> Inl e
            | Inr blocks \<Rightarrow> collision_loop E s blocks))"

text \<open>
  \<open>spawn_piece\<close>. The piece drawn by \<open>random.choice\<close> is an argument of the model.
\<close>

definition spawn_piece :: "TetrisEngine \<Rightarrow> Tetromino \<Rightarrow> GameState \<Rightarrow> py_error + (GameState \<times> dict)" where
  "spawn_piece E piece s =
     (let new_state =
            \<lparr> board = board s,
              current_piece = Some piece,
              current_pos = (0, 3),
              current_rotation = 0,
              score = score s,
              lines_cleared = lines_cleared s,
              game_over = game_over s,
              move_count = move_count s \<rparr>
      in case check_collision E new_state of
           Inl e \<Rightarrow> Inl e
         | Inr hit \<Rightarrow>
             (let new_state' = (if hit then new_state\<lparr>game_over := True\<rparr> else new_state);
                  event = [(''action'', VStr (action_value SPAWN_PIECE)),
                           (''piece'', VStr (tetromino_value piece)),
                           (''position'', VTuple (fst (current_pos new_state')) (snd (current_pos new_state'))),
                           (''game_over'', VBool (game_over new_state'))]
              in Inr (new_state', event)))"

text \<open>
  The first loop of \<open>_lock_piece\<close>: write the piece's in-bounds cells into the copied board.
  \<open>new_board[row][col] = v\<close> updates the row in place, so the board holds the updated row.
\<close>

fun merge_blocks :: "TetrisEngine \<Rightarrow> GameState \<Rightarrow> grid \<Rightarrow> (int \<times> int) list \<Rightarrow> py_error + grid" where
  "merge_blocks E s new_board [] = Inr new_board"
| "merge_blocks E s new_board ((dr, dc) # bs) =
     (let row = fst (current_pos s) + dr;
          col = snd (current_pos s) + dc
      in if 0 \<le> row \<and> row < rows E \<and> 0 \<le> col \<and> col < cols E then
           (case current_piece s of
              None \<Rightarrow> Inl AttributeError
            | Some p \<Rightarrow>
                (case py_index new_board row of
                   Inl e \<Rightarrow> Inl e
                 | Inr cells \<Rightarrow>
                     (case py_setitem cells col (Some (tetromino_value p)) of
                        Inl e \<Rightarrow> Inl e
                      | Inr cells' \<Rightarrow> merge_blocks E s (new_board[nat row := cells']) bs)))
         else merge_blocks E s new_board bs)"

text \<open>The second loop: the indices in \<open>range(rows)\<close> of the rows without an empty cell.\<close>

fun full_rows :: "grid \<Rightarrow> int list \<Rightarrow> py_error + int list" where
  "full_rows new_board [] = Inr []"
| "full_rows new_board (row # rs) =
     (case py_index new_board row of
        Inl e \<Rightarrow> Inl e
      | Inr cells \<Rightarrow>
          (case full_rows new_board rs of
             Inl e \<Rightarrow> Inl e
           | Inr ls \<Rightarrow> Inr (if list_all (\<lambda>c. c \<noteq> None) cells then row # ls else ls)))"

text \<open>
  The third loop, over \<open>sorted(lines_to_clear, reverse=True)\<close>:
  \<open>new_board.pop(line); new_board.insert(0, [None] * cols)\<close>.
\<close>

fun clear_lines :: "TetrisEngine \<Rightarrow> grid \<Rightarrow> int list \<Rightarrow> py_error + grid" where
  "clear_lines E new_board [] = Inr new_board"
| "clear_lines E new_board (line # ls) =
     (case py_pop new_board line of
        Inl e \<Rightarrow> Inl e
      | Inr nb \<Rightarrow> clear_lines E (replicate (nat (cols E)) None # nb) ls)"

text \<open>\<open>points.get(line_count, 0)\<close> on \<open>{0: 0, 1: 100, 2: 300, 3: 500, 4: 800}\<close>.\<close>

definition points_get :: "int \<Rightarrow> int" where
  "points_get line_count =
     (if line_count = 0 then 0
      else if line_count = 1 then 100
      else if line_count = 2 then 300
      else if line_count = 3 then 500
      else if line_count = 4 then 800
      else 0)"

definition lock_piece :: "TetrisEngine \<Rightarrow> GameState \<Rightarrow> py_error + (GameState \<times> dict)" where
  "lock_piece E s =
     (case get_piece_blocks (current_piece s) (current_rotation s) of
        Inl e \<Rightarrow> Inl e
      | Inr blocks \<Rightarrow>
     (case merge_blocks E s (board s) blocks of
        Inl e \<Rightarrow> Inl e
      | Inr merged \<Rightarrow>
     (case full_rows merged (map int [0 ..< nat (rows E)]) of
        Inl e \<Rightarrow> Inl e
      | Inr lines_to_clear \<Rightarrow>
     (case clear_lines E merged (rev (sort lines_to_clear)) of
        Inl e \<Rightarrow> Inl e
      | Inr new_board \<Rightarrow>
     (case current_piece s of
        None \<Rightarrow> Inl AttributeError
      | Some p \<Rightarrow>
          (let line_count = int (length lines_to_clear);
               new_state =
                 \<lparr> board = new_board,
                   current_piece = None,
                   current_pos = (0, 3),
                   current_rotation = 0,
                   score = score s + points_get line_count,
                   lines_cleared = lines_cleared s + line_count,
                   game_over = game_over s,
                   move_count = move_count s \<rparr>;
               event = [(''action'', VStr ''PIECE_LOCKED''),
                        (''piece'', VStr (tetromino_value p)),
                        (''position'', VTuple (fst (current_pos s)) (snd (current_pos s))),
                        (''lines_cleared'', VInt line_count),
                        (''cleared_rows'', VList lines_to_clear),
                        (''points_earned'', VInt (points_get line_count)),
                        (''total_score'', VInt (score new_state))]
           in Inr (new_state, event)))))))"

text \<open>\<open>move\<close>: a result \<open>(state, None)\<close> is the no-op.\<close>

definition move :: "TetrisEngine \<Rightarrow> GameState \<Rightarrow> TetrisAction \<Rightarrow> py_error + (GameState \<times> dict option)" where
  "move E s action =
     (if current_piece s = None \<or> game_over s then Inr (s, None)
      else
        (let row = fst (current_pos s);
             col = snd (current_pos s);
             target = (if action = MOVE_LEFT then Some (row, col - 1)
                       else if action = MOVE_RIGHT then Some (row, col + 1)
                       else if action = MOVE_DOWN then Some (row + 1, col)
                       else None)
         in case target of
              None \<Rightarrow> Inr (s, None)
            | Some new_pos \<Rightarrow>
                (let new_state =
                       \<lparr> board = board s,
                         current_piece = current_piece s,
                         current_pos = new_pos,
                         current_rotation = current_rotation s,
                         score = score s,
                         lines_cleared = lines_cleared s,
                         game_over = game_over s,
                         move_count = move_count s + 1 \<rparr>
                 in case check_collision E new_state of
                      Inl e \<Rightarrow> Inl e
                    | Inr True \<Rightarrow>
                        (if action = MOVE_DOWN then
                           (case lock_piece E s of
                              Inl e \<Rightarrow> Inl e
                            | Inr (s', ev) \<Rightarrow> Inr (s', Some ev))
                         else Inr (s, None))
                    | Inr False \<Rightarrow>
                        Inr (new_state,
                             Some [(''action'', VStr (action_value action)),
                                   (''from'', VTuple (fst (current_pos s)) (snd (current_pos s))),
                                   (''to'', VTuple (fst new_pos) (snd new_pos)),
                                   (''move_number'', VInt (move_count new_state))]))))"

text \<open>\<open>rotate\<close>; Python's \<open>%\<close> with a positive modulus is never negative, like \<open>mod\<close> on \<open>int\<close>.\<close>

definition rotate :: "TetrisEngine \<Rightarrow> GameState \<Rightarrow> bool \<Rightarrow> py_error + (GameState \<times> dict option)" where
  "rotate E s clockwise =
     (if current_piece s = None \<or> game_over s then Inr (s, None)
      else
        (let new_rotation = (current_rotation s + (if clockwise then 1 else - 1)) mod 4;
             new_state =
               \<lparr> board = board s,
                 current_piece = current_piece s,
                 current_pos = current_pos s,
                 current_rotation = new_rotation,
                 score = score s,
                 lines_cleared = lines_cleared s,
                 game_over = game_over s,
                 move_count = move_count s + 1 \<rparr>
         in case check_collision E new_state of
              Inl e \<Rightarrow> Inl e
            | Inr True \<Rightarrow> Inr (s, None)
            | Inr False \<Rightarrow>
                Inr (new_state,
                     Some [(''action'', VStr (action_value (if clockwise then ROTATE_CW else ROTATE_CCW))),
                           (''from_rotation'', VInt (current_rotation s)),
                           (''to_rotation'', VInt new_rotation),
                           (''move_number'', VInt (move_count new_state))])))"

text \<open>
  The \<open>while True\<close> loop of \<open>hard_drop\<close>. It leaves only through \<open>break\<close> (or an
  exception), so the model is a partial function: \<open>None\<close> stands for a loop that never ends.
  \<open>step_down\<close> builds the loop's \<open>test_state\<close>, one row below.
\<close>

definition step_down :: "GameState \<Rightarrow> GameState" where
  "step_down current_state =
     \<lparr> board = board current_state,
       current_piece = current_piece current_state,
       current_pos = (fst (current_pos current_state) + 1, snd (current_pos current_state)),
       current_rotation = current_rotation current_state,
       score = score current_state,
       lines_cleared = lines_cleared current_state,
       game_over = game_over current_state,
       move_count = move_count current_state \<rparr>"

partial_function (option) drop_loop ::
  "TetrisEngine \<Rightarrow> GameState \<Rightarrow> int \<Rightarrow> (py_error + (GameState \<times> int)) option" where
  "drop_loop E current_state drop_distance =
     (case check_collision E (step_down current_state) of
        Inl e \<Rightarrow> Some (Inl e)
      | Inr hit \<Rightarrow>
          if hit then Some (Inr (current_state, drop_distance))
          else drop_loop E (step_down current_state) (drop_distance + 1))"

declare drop_loop.simps [code]

definition hard_drop :: "TetrisEngine \<Rightarrow> GameState \<Rightarrow> (py_error + (GameState \<times> dict option)) option" where
  "hard_drop E s =
     (if current_piece s = None \<or> game_over s then Some (Inr (s, None))
      else
        (case drop_loop E s 0 of
           None \<Rightarrow> None
         | Some (Inl e) \<Rightarrow> Some (Inl e)
         | Some (Inr (current_state, drop_distance)) \<Rightarrow>
             (case lock_piece E current_state of
                Inl e \<Rightarrow> Some (Inl e)
              | Inr (locked_state, lock_event) \<Rightarrow>
                  (let event = [(''action'', VStr (action_value HARD_DROP)),
                                (''from'', VTuple (fst (current_pos s)) (snd (current_pos s))),
                                (''to'', VTuple (fst (current_pos current_state)) (snd (current_pos current_state))),
                                (''drop_distance'', VInt drop_distance),
                                (''bonus_points'', VInt (drop_distance * 2))]
                   in Some (Inr (locked_state\<lparr>score := score locked_state + drop_distance * 2\<rparr>,
                                 Some event))))))"

section \<open>game\_policy\_validator.py\<close>

text \<open>\<open>d.get(k)\<close> and \<open>d.get(k, default)\<close>: a missing key gives \<open>None\<close> or the default.\<close>

definition py_get :: "dict \<Rightarrow> string \<Rightarrow> pyval" where
  "py_get d k = (case dict_get d k of None \<Rightarrow> VNone | Some v \<Rightarrow> v)"

definition py_get_default :: "dict \<Rightarrow> string \<Rightarrow> pyval \<Rightarrow> pyval" where
  "py_get_default d k dflt = (case dict_get d k of None \<Rightarrow> dflt | Some v \<Rightarrow> v)"

text \<open>Python's \<open>==\<close> on these values: \<open>bool\<close> is a subtype of \<open>int\<close>, so \<open>True == 1\<close>.\<close>

fun py_eq :: "pyval \<Rightarrow> pyval \<Rightarrow> bool" where
  "py_eq (VBool b) (VInt n) = (n = (if b then 1 else 0))"
| "py_eq (VInt n) (VBool b) = (n = (if b then 1 else 0))"
| "py_eq v w = (v = w)"

text \<open>\<open>v in [s1, s2, ...]\<close> for a list of strings.\<close>

definition py_in :: "pyval \<Rightarrow> string list \<Rightarrow> bool" where
  "py_in v strs = list_ex (\<lambda>s. py_eq v (VStr s)) strs"

text \<open>\<open>v > 0\<close>: defined on integers and booleans, a \<open>TypeError\<close> on everything else.\<close>

fun py_gt_zero :: "pyval \<Rightarrow> py_error + bool" where
  "py_gt_zero (VInt n) = Inr (n > 0)"
| "py_gt_zero (VBool b) = Inr b"
| "py_gt_zero v = Inl TypeError"

text \<open>\<open>n + v\<close> for an integer \<open>n\<close>, as \<open>sum\<close> computes it.\<close>

fun py_add :: "int \<Rightarrow> pyval \<Rightarrow> py_error + int" where
  "py_add n (VInt m) = Inr (n + m)"
| "py_add n (VBool b) = Inr (n + (if b then 1 else 0))"
| "py_add n v = Inl TypeError"

fun py_sum :: "int \<Rightarrow> pyval list \<Rightarrow> py_error + int" where
  "py_sum acc [] = Inr acc"
| "py_sum acc (v # vs) = (case py_add acc v of Inl e \<Rightarrow> Inl e | Inr acc' \<Rightarrow> py_sum acc' vs)"

text \<open>
  \<open>table.get(key)\<close> on a dict with string keys and string values: a list is not hashable
  and raises; any other key that is not in the table gives \<open>None\<close>.
\<close>

fun table_get :: "(string \<times> string) list \<Rightarrow> pyval \<Rightarrow> py_error + pyval" where
  "table_get tbl (VList xs) = Inl TypeError"
| "table_get tbl (VStr k) = Inr (case map_of tbl k of None \<Rightarrow> VNone | Some v \<Rightarrow> VStr v)"
| "table_get tbl v = Inr VNone"

text \<open>\<open>str(n)\<close> for the integers formatted into the reasons.\<close>

function str_nat :: "nat \<Rightarrow> string" where
  "str_nat n = (if n < 10 then [''0123456789'' ! n]
                else str_nat (n div 10) @ [''0123456789'' ! (n mod 10)])"
  by pat_completeness auto
termination
  by (relation "measure id") auto

declare str_nat.simps [simp del]

definition str_int :: "int \<Rightarrow> string" where
  "str_int i = (if i < 0 then ''-'' @ str_nat (nat (- i)) else str_nat (nat i))"

record PolicyResult =
  approved :: bool
  reason :: "string option"
  penalty_points :: int
  warning :: "string option"

record Policies =
  max_moves_per_piece :: int
  max_consecutive_rotations :: int
  max_same_action_streak :: int
  max_backtrack_moves :: int
  bonus_fraud_threshold :: int

text \<open>The limits set by \<open>GamePolicyValidator.__init__\<close>.\<close>

definition default_policies :: Policies where
  "default_policies =
     \<lparr> max_moves_per_piece = 50,
       max_consecutive_rotations = 10,
       max_same_action_streak = 5,
       max_backtrack_moves = 3,
       bonus_fraud_threshold = 1000 \<rparr>"

text \<open>\<open>TENANT_POLICIES\<close>.\<close>

definition arcade_mode :: Policies where
  "arcade_mode =
     \<lparr> max_moves_per_piece = 30,
       max_consecutive_rotations = 5,
       max_same_action_streak = 3,
       max_backtrack_moves = 2,
       bonus_fraud_threshold = 500 \<rparr>"

definition casual_mode :: Policies where
  "casual_mode =
     \<lparr> max_moves_per_piece = 100,
       max_consecutive_rotations = 20,
       max_same_action_streak = 10,
       max_backtrack_moves = 5,
       bonus_fraud_threshold = 2000 \<rparr>"

definition competitive_mode :: Policies where
  "competitive_mode =
     \<lparr> max_moves_per_piece = 20,
       max_consecutive_rotations = 3,
       max_same_action_streak = 2,
       max_backtrack_moves = 0,
       bonus_fraud_threshold = 300 \<rparr>"

text \<open>\<open>get_policy_validator\<close>: an unknown mode falls back to the arcade limits.\<close>

definition get_policy_validator :: "string \<Rightarrow> Policies" where
  "get_policy_validator mode =
     (if mode = ''arcade_mode'' then arcade_mode
      else if mode = ''casual_mode'' then casual_mode
      else if mode = ''competitive_mode'' then competitive_mode
      else arcade_mode)"

text \<open>\<open>_count_moves_for_current_piece\<close>: the loop runs over \<open>reversed(history)\<close>.\<close>

fun count_moves_loop :: "dict list \<Rightarrow> int \<Rightarrow> int" where
  "count_moves_loop [] moves = moves"
| "count_moves_loop (event # es) moves =
     (if py_eq (py_get event ''action'') (VStr ''SPAWN_PIECE'') then moves
      else count_moves_loop es
             (if py_in (py_get event ''action'')
                   [''MOVE_LEFT'', ''MOVE_RIGHT'', ''MOVE_DOWN'', ''ROTATE_CW'', ''ROTATE_CCW'']
              then moves + 1 else moves))"

definition count_moves_for_current_piece :: "dict list \<Rightarrow> int" where
  "count_moves_for_current_piece history = count_moves_loop (rev history) 0"

text \<open>\<open>_count_consecutive_actions\<close>.\<close>

fun count_consecutive_loop :: "dict list \<Rightarrow> string list \<Rightarrow> int \<Rightarrow> int" where
  "count_consecutive_loop [] actions count = count"
| "count_consecutive_loop (event # es) actions count =
     (if py_in (py_get event ''action'') actions
      then count_consecutive_loop es actions (count + 1)
      else count)"

definition count_consecutive_actions :: "dict list \<Rightarrow> string list \<Rightarrow> int" where
  "count_consecutive_actions history actions = count_consecutive_loop (rev history) actions 0"

text \<open>\<open>_is_backtrack_move\<close>, with its table of four opposites.\<close>

definition is_backtrack_move :: "string \<Rightarrow> dict list \<Rightarrow> py_error + bool" where
  "is_backtrack_move action history =
     (if history = [] then Inr False
      else
        (case py_index history (- 1) of
           Inl e \<Rightarrow> Inl e
         | Inr last_event \<Rightarrow>
             (case table_get [(''MOVE_LEFT'', ''MOVE_RIGHT''),
                              (''MOVE_RIGHT'', ''MOVE_LEFT''),
                              (''ROTATE_CW'', ''ROTATE_CCW''),
                              (''ROTATE_CCW'', ''ROTATE_CW'')]
                     (py_get last_event ''action'') of
                Inl e \<Rightarrow> Inl e
              | Inr opp \<Rightarrow> Inr (py_eq opp (VStr action)))))"

text \<open>\<open>_count_backtrack_moves\<close>, with its table of two opposites; the loop runs over
  \<open>range(1, min(len(history), 20))\<close>.\<close>

fun count_backtrack_loop :: "dict list \<Rightarrow> int list \<Rightarrow> int \<Rightarrow> py_error + int" where
  "count_backtrack_loop history [] backtrack_count = Inr backtrack_count"
| "count_backtrack_loop history (i # is) backtrack_count =
     (case py_index history (- i - 1) of
        Inl e \<Rightarrow> Inl e
      | Inr prev_event \<Rightarrow>
          (case py_index history (- i) of
             Inl e \<Rightarrow> Inl e
           | Inr curr_event \<Rightarrow>
               (case table_get [(''MOVE_LEFT'', ''MOVE_RIGHT''), (''MOVE_RIGHT'', ''MOVE_LEFT'')]
                       (py_get prev_event ''action'') of
                  Inl e \<Rightarrow> Inl e
                | Inr opp \<Rightarrow>
                    count_backtrack_loop history is
                      (if py_eq opp (py_get curr_event ''action'')
                       then backtrack_count + 1 else backtrack_count))))"

definition count_backtrack_moves :: "dict list \<Rightarrow> py_error + int" where
  "count_backtrack_moves history =
     count_backtrack_loop history (map int [1 ..< min (length history) 20]) 0"

text \<open>\<open>_get_recent_line_clears\<close>: the loop runs over \<open>reversed(history)\<close>.\<close>

fun recent_clears_loop :: "dict list \<Rightarrow> int \<Rightarrow> dict list \<Rightarrow> py_error + dict list" where
  "recent_clears_loop [] limit clears = Inr clears"
| "recent_clears_loop (event # es) limit clears =
     (case (if py_eq (py_get event ''action'') (VStr ''LINE_CLEAR'') then Inr True
            else py_gt_zero (py_get_default event ''lines_cleared'' (VInt 0))) of
        Inl e \<Rightarrow> Inl e
      | Inr hit \<Rightarrow>
          if hit then
            (if int (length (clears @ [event])) \<ge> limit then Inr (clears @ [event])
             else recent_clears_loop es limit (clears @ [event]))
          else recent_clears_loop es limit clears)"

definition get_recent_line_clears :: "dict list \<Rightarrow> int \<Rightarrow> py_error + dict list" where
  "get_recent_line_clears history limit = recent_clears_loop (rev history) limit []"

text \<open>\<open>validate_move\<close>; the state snapshot is passed and not read.\<close>

definition validate_move :: "Policies \<Rightarrow> string \<Rightarrow> dict \<Rightarrow> dict list \<Rightarrow> py_error + PolicyResult" where
  "validate_move P action current_state history =
     (let piece_moves = count_moves_for_current_piece history in
      if piece_moves \<ge> max_moves_per_piece P then
        Inr \<lparr> approved = False,
              reason = Some (''Max moves per piece exceeded ('' @ str_int piece_moves @ '')''),
              penalty_points = 50,
              warning = None \<rparr>
      else if action \<in> set [''ROTATE_CW'', ''ROTATE_CCW'']
              \<and> count_consecutive_actions history [''ROTATE_CW'', ''ROTATE_CCW'']
                  \<ge> max_consecutive_rotations P then
        Inr \<lparr> approved = False,
              reason = Some (''Rotation spam detected (''
                             @ str_int (count_consecutive_actions history [''ROTATE_CW'', ''ROTATE_CCW''])
                             @ '' consecutive)''),
              penalty_points = 20,
              warning = None \<rparr>
      else if action \<in> set [''MOVE_LEFT'', ''MOVE_RIGHT'']
              \<and> count_consecutive_actions history [action] \<ge> max_same_action_streak P then
        Inr \<lparr> approved = False,
              reason = Some (''Action spam: '' @ action @ '' repeated ''
                             @ str_int (count_consecutive_actions history [action]) @ '' times''),
              penalty_points = 10,
              warning = None \<rparr>
      else
        (case is_backtrack_move action history of
           Inl e \<Rightarrow> Inl e
         | Inr False \<Rightarrow> Inr \<lparr> approved = True, reason = None, penalty_points = 0, warning = None \<rparr>
         | Inr True \<Rightarrow>
             (case count_backtrack_moves history of
                Inl e \<Rightarrow> Inl e
              | Inr backtrack_count \<Rightarrow>
                  if backtrack_count \<ge> max_backtrack_moves P then
                    Inr \<lparr> approved = False,
                          reason = Some (''Backtrack limit exceeded ('' @ str_int backtrack_count @ '')''),
                          penalty_points = 15,
                          warning = None \<rparr>
                  else Inr \<lparr> approved = True, reason = None, penalty_points = 0, warning = None \<rparr>)))"

text \<open>\<open>validate_line_clear\<close>; \<open>points_get\<close> is the same table as \<open>expected_points.get(_, 0)\<close>.\<close>

definition validate_line_clear :: "Policies \<Rightarrow> int \<Rightarrow> int \<Rightarrow> dict list \<Rightarrow> py_error + PolicyResult" where
  "validate_line_clear P n_lines points_earned history =
     (if points_earned \<noteq> points_get n_lines then
        Inr \<lparr> approved = False,
              reason = Some (''Invalid scoring: '' @ str_int n_lines @ '' lines should give ''
                             @ str_int (points_get n_lines) @ '' points, got '' @ str_int points_earned),
              penalty_points = points_earned,
              warning = None \<rparr>
      else
        (case get_recent_line_clears history 5 of
           Inl e \<Rightarrow> Inl e
         | Inr recent_clears \<Rightarrow>
             if length recent_clears \<ge> 3 then
               (case py_sum 0 (map (\<lambda>e. py_get_default e ''points_earned'' (VInt 0)) recent_clears) of
                  Inl e \<Rightarrow> Inl e
                | Inr total_recent_points \<Rightarrow>
                    if total_recent_points > bonus_fraud_threshold P then
                      Inr \<lparr> approved = True, reason = None, penalty_points = 0,
                            warning = Some ''Suspicious scoring pattern detected (fraud review triggered)'' \<rparr>
                    else Inr \<lparr> approved = True, reason = None, penalty_points = 0, warning = None \<rparr>)
             else Inr \<lparr> approved = True, reason = None, penalty_points = 0, warning = None \<rparr>))"

section \<open>The event log\<close>

text \<open>
  Modelled from the spec: the event store (\<open>PostgresEventStore\<close>, \<open>append_event_safe\<close>,
  \<open>get_execution\<close>, \<open>State\<close>, \<open>Event\<close>) is an external collaborator whose code is not part
  of the sources. Section 6 of the specification gives its contract: events carry a state
  tag and a payload; \<open>read\<close> returns the events of one session in append order; \<open>append\<close>
  adds one event at the end and must reject any append once a FINALIZED event exists for
  that session.
\<close>

datatype State = RUNNING | FAILED | FINALIZED

record Event =
  state :: State
  payload :: dict

type_synonym PostgresEventStore = "string \<times> string \<Rightarrow> Event list"

definition get_execution :: "PostgresEventStore \<Rightarrow> string \<Rightarrow> string \<Rightarrow> Event list" where
  "get_execution store tenant execution = store (tenant, execution)"

definition append_event_safe ::
  "PostgresEventStore \<Rightarrow> string \<Rightarrow> string \<Rightarrow> State \<Rightarrow> dict \<Rightarrow> py_error + PostgresEventStore" where
  "append_event_safe store tenant execution st pl =
     (if list_ex (\<lambda>e. state e = FINALIZED) (store (tenant, execution)) then Inl AppendRejected
      else Inr (store((tenant, execution) := store (tenant, execution) @ [\<lparr> state = st, payload = pl \<rparr>])))"

section \<open>agents/tetris\_agent.py\<close>

record TetrisExecution =
  tenant_id :: string
  execution_id :: string
  game_state :: GameState
  policy_validator :: Policies
  engine :: TetrisEngine

record TetrisAgent =
  agent_tenant_id :: string
  agent_mode :: string
  agent_engine :: TetrisEngine
  agent_policy_validator :: Policies

text \<open>\<open>TetrisAgent.__init__\<close>: a 20 by 10 engine and a validator with the default limits.\<close>

definition TetrisAgent_init :: "string \<Rightarrow> string \<Rightarrow> TetrisAgent" where
  "TetrisAgent_init tenant mode =
     \<lparr> agent_tenant_id = tenant,
       agent_mode = mode,
       agent_engine = \<lparr> rows = 20, cols = 10 \<rparr>,
       agent_policy_validator = default_policies \<rparr>"

text \<open>\<open>d[k]\<close> on a dict: a missing key raises \<open>KeyError\<close>.\<close>

definition py_getitem :: "dict \<Rightarrow> string \<Rightarrow> py_error + pyval" where
  "py_getitem d k = (case dict_get d k of None \<Rightarrow> Inl KeyError | Some v \<Rightarrow> Inr v)"

text \<open>The payload built from a spawn event, with the entries after it appended.\<close>

definition spawn_payload :: "string \<Rightarrow> dict \<Rightarrow> dict \<Rightarrow> py_error + dict" where
  "spawn_payload stage spawn_event extra =
     (case py_getitem spawn_event ''action'' of
        Inl e \<Rightarrow> Inl e
      | Inr a \<Rightarrow>
     (case py_getitem spawn_event ''piece'' of
        Inl e \<Rightarrow> Inl e
      | Inr pc \<Rightarrow>
     (case py_getitem spawn_event ''position'' of
        Inl e \<Rightarrow> Inl e
      | Inr pos \<Rightarrow>
          Inr ([(''stage'', VStr stage), (''action'', a), (''piece'', pc), (''position'', pos)] @ extra))))"

text \<open>\<open>start_game\<close>; the piece of the first spawn is an argument.\<close>

definition start_game ::
  "TetrisAgent \<Rightarrow> PostgresEventStore \<Rightarrow> string \<Rightarrow> Tetromino
     \<Rightarrow> py_error + (PostgresEventStore \<times> TetrisExecution)" where
  "start_game A store execution piece =
     (case spawn_piece (agent_engine A) piece (new_game 20 10) of
        Inl e \<Rightarrow> Inl e
      | Inr (new_state, spawn_event) \<Rightarrow>
     (case spawn_payload ''game_start'' spawn_event [(''mode'', VStr (agent_mode A))] of
        Inl e \<Rightarrow> Inl e
      | Inr pl \<Rightarrow>
     (case append_event_safe store (agent_tenant_id A) execution RUNNING pl of
        Inl e \<Rightarrow> Inl e
      | Inr store' \<Rightarrow>
          Inr (store',
               \<lparr> tenant_id = agent_tenant_id A,
                 execution_id = execution,
                 game_state = new_state,
                 policy_validator = agent_policy_validator A,
                 engine = agent_engine A \<rparr>))))"

text \<open>\<open>_finalize_game\<close>.\<close>

definition finalize_game ::
  "PostgresEventStore \<Rightarrow> TetrisExecution \<Rightarrow> GameState \<Rightarrow> py_error + PostgresEventStore" where
  "finalize_game store execution final_state =
     append_event_safe store (tenant_id execution) (execution_id execution) FINALIZED
       [(''stage'', VStr ''game_over''),
        (''action'', VStr ''GAME_FINALIZED''),
        (''final_score'', VInt (score final_state)),
        (''lines_cleared'', VInt (lines_cleared final_state)),
        (''move_count'', VInt (move_count final_state)),
        (''sealed_at'', VStr ''2026-02-15T00:00:00Z'')]"

text \<open>
  Step 6 of \<open>execute_action\<close>: after a \<open>PIECE_LOCKED\<close> event, spawn the next piece, append its
  event and finalize when the spawn ended the game. \<open>next_piece\<close> is the piece that
  \<open>random.choice\<close> would draw.
\<close>

definition spawn_after_lock ::
  "TetrisAgent \<Rightarrow> PostgresEventStore \<Rightarrow> TetrisExecution \<Rightarrow> Tetromino \<Rightarrow> GameState \<Rightarrow> dict
     \<Rightarrow> py_error + (PostgresEventStore \<times> GameState)" where
  "spawn_after_lock A store execution next_piece new_state event_payload =
     (if py_eq (py_get event_payload ''action'') (VStr ''PIECE_LOCKED'') then
        (case spawn_piece (agent_engine A) next_piece new_state of
           Inl e \<Rightarrow> Inl e
         | Inr (spawned, spawn_event) \<Rightarrow>
        (case spawn_payload ''spawn_piece'' spawn_event [] of
           Inl e \<Rightarrow> Inl e
         | Inr pl \<Rightarrow>
        (case append_event_safe store (tenant_id execution) (execution_id execution) RUNNING pl of
           Inl e \<Rightarrow> Inl e
         | Inr store' \<Rightarrow>
             if game_over spawned then
               (case finalize_game store' execution spawned of
                  Inl e \<Rightarrow> Inl e
                | Inr store'' \<Rightarrow> Inr (store'', spawned))
             else Inr (store', spawned))))
      else Inr (store, new_state))"

text \<open>
  Steps 4 to 6 of \<open>execute_action\<close>, entered with the engine's result. The arguments of
  \<open>validate_line_clear\<close> are read from a lock event, where both are integers.
\<close>

definition commit_transition ::
  "TetrisAgent \<Rightarrow> PostgresEventStore \<Rightarrow> TetrisExecution \<Rightarrow> dict list \<Rightarrow> PolicyResult \<Rightarrow> Tetromino
     \<Rightarrow> GameState \<Rightarrow> dict option
     \<Rightarrow> py_error + (PostgresEventStore \<times> TetrisExecution \<times> PolicyResult \<times> dict option)" where
  "commit_transition A store execution history policy_result next_piece new_state ev =
     (case ev of
        None \<Rightarrow>
          Inr (store, execution,
               \<lparr> approved = False, reason = Some ''Invalid move (collision)'', penalty_points = 0, warning = None \<rparr>,
               None)
      | Some event_payload \<Rightarrow>
          (case (if py_eq (py_get event_payload ''action'') (VStr ''PIECE_LOCKED'') then
                   (case (py_get_default event_payload ''lines_cleared'' (VInt 0),
                          py_get_default event_payload ''points_earned'' (VInt 0)) of
                      (VInt n_lines, VInt points) \<Rightarrow>
                        (case validate_line_clear (policy_validator execution) n_lines points history of
                           Inl e \<Rightarrow> Inl e
                         | Inr line_clear_result \<Rightarrow>
                             if \<not> approved line_clear_result
                             then Inr (Some (line_clear_result, VInt points)) else Inr None)
                    | _ \<Rightarrow> Inl TypeError)
                 else Inr None) of
             Inl e \<Rightarrow> Inl e
           | Inr (Some (line_clear_result, points)) \<Rightarrow>
               (case append_event_safe store (tenant_id execution) (execution_id execution) FAILED
                       [(''stage'', VStr ''fraud_detected''),
                        (''action'', VStr ''LINE_CLEAR_FRAUD''),
                        (''reason'', (case reason line_clear_result of None \<Rightarrow> VNone | Some r \<Rightarrow> VStr r)),
                        (''revoked_points'', points)] of
                  Inl e \<Rightarrow> Inl e
                | Inr store' \<Rightarrow>
                    Inr (store',
                         execution\<lparr>game_state := (game_state execution)\<lparr>game_over := True\<rparr>\<rparr>,
                         line_clear_result, None))
           | Inr None \<Rightarrow>
               (case append_event_safe store (tenant_id execution) (execution_id execution) RUNNING
                       (dict_merge [(''stage'', VStr ''game_action''),
                                    (''action'', py_get event_payload ''action'')]
                                   event_payload) of
                  Inl e \<Rightarrow> Inl e
                | Inr store' \<Rightarrow>
                    (case spawn_after_lock A store' execution next_piece new_state event_payload of
                       Inl e \<Rightarrow> Inl e
                     | Inr (store'', final_state) \<Rightarrow>
                         Inr (store'', execution\<lparr>game_state := final_state\<rparr>, policy_result,
                              Some event_payload)))))"

text \<open>
  Steps 1 and 2 of \<open>execute_action\<close> read the payloads of the session's events and take
  a snapshot of the state for the validator.
\<close>

definition history_payloads :: "PostgresEventStore \<Rightarrow> TetrisExecution \<Rightarrow> dict list" where
  "history_payloads store execution =
     map payload (get_execution store (tenant_id execution) (execution_id execution))"

definition current_state_dict :: "TetrisExecution \<Rightarrow> dict" where
  "current_state_dict execution =
     [(''score'', VInt (score (game_state execution))),
      (''lines_cleared'', VInt (lines_cleared (game_state execution))),
      (''move_count'', VInt (move_count (game_state execution)))]"

text \<open>
  \<open>execute_action\<close>: read the history, validate, apply the engine operation, commit.
  The result is \<open>None\<close> only if the hard-drop loop does not end.
\<close>

definition execute_action ::
  "TetrisAgent \<Rightarrow> PostgresEventStore \<Rightarrow> TetrisExecution \<Rightarrow> TetrisAction \<Rightarrow> Tetromino
     \<Rightarrow> (py_error + (PostgresEventStore \<times> TetrisExecution \<times> PolicyResult \<times> dict option)) option" where
  "execute_action A store execution action next_piece =
     (let history = history_payloads store execution
      in case validate_move (policy_validator execution) (action_value action)
                (current_state_dict execution) history of
           Inl e \<Rightarrow> Some (Inl e)
         | Inr policy_result \<Rightarrow>
             if \<not> approved policy_result then
               (case append_event_safe store (tenant_id execution) (execution_id execution) FAILED
                       [(''stage'', VStr ''policy_violation''),
                        (''action'', VStr (action_value action)),
                        (''reason'', (case reason policy_result of None \<Rightarrow> VNone | Some r \<Rightarrow> VStr r)),
                        (''penalty_points'', VInt (penalty_points policy_result))] of
                  Inl e \<Rightarrow> Some (Inl e)
                | Inr store' \<Rightarrow>
                    Some (Inr (store',
                               execution\<lparr>game_state := (game_state execution)\<lparr>game_over := True\<rparr>\<rparr>,
                               policy_result, None)))
             else if action \<in> set [MOVE_LEFT, MOVE_RIGHT, MOVE_DOWN] then
               (case move (agent_engine A) (game_state execution) action of
                  Inl e \<Rightarrow> Some (Inl e)
                | Inr (new_state, ev) \<Rightarrow>
                    Some (commit_transition A store execution history policy_result next_piece new_state ev))
             else if action \<in> set [ROTATE_CW, ROTATE_CCW] then
               (case rotate (agent_engine A) (game_state execution) (action = ROTATE_CW) of
                  Inl e \<Rightarrow> Some (Inl e)
                | Inr (new_state, ev) \<Rightarrow>
                    Some (commit_transition A store execution history policy_result next_piece new_state ev))
             else if action = HARD_DROP then
               (case hard_drop (agent_engine A) (game_state execution) of
                  None \<Rightarrow> None
                | Some (Inl e) \<Rightarrow> Some (Inl e)
                | Some (Inr (new_state, ev)) \<Rightarrow>
                    Some (commit_transition A store execution history policy_result next_piece new_state ev))
             else
               Some (Inr (store, execution,
                          \<lparr> approved = False, reason = Some ''Unknown action'', penalty_points = 0, warning = None \<rparr>,
                          None)))"

section \<open>Notions used in the properties\<close>

text \<open>The number of rows in \<open>range(rows)\<close> of a board that have no empty cell.\<close>

definition count_full_rows :: "TetrisEngine \<Rightarrow> grid \<Rightarrow> int" where
  "count_full_rows E g =
     int (length (filter (\<lambda>r. list_all (\<lambda>c. c \<noteq> None) (g ! r)) [0 ..< nat (rows E)]))"

text \<open>
  A board of the engine's size: \<open>rows\<close> rows of \<open>cols\<close> cells each, as \<open>new_game\<close> builds
  it. On such a board no index of the engine is out of range.
\<close>

definition board_fits :: "TetrisEngine \<Rightarrow> grid \<Rightarrow> bool" where
  "board_fits E g =
     (int (length g) = rows E \<and> list_all (\<lambda>cells. int (length cells) = cols E) g)"

text \<open>
  A two-row engine with an \<open>O\<close> piece that fills the board's height: every move and
  rotation of it collides, and locking it completes the lower row.
\<close>

definition small_engine :: TetrisEngine where
  "small_engine = \<lparr> rows = 2, cols = 4 \<rparr>"

definition small_state :: GameState where
  "small_state =
     \<lparr> board = [[None, None, None, None], [None, None, Some ''I'', Some ''I'']],
       current_piece = Some Tet_O,
       current_pos = (0, 0),
       current_rotation = 0,
       score = 40,
       lines_cleared = 3,
       game_over = False,
       move_count = 7 \<rparr>"

text \<open>
  A four by four engine with an \<open>O\<close> piece that has room on every side.
\<close>

definition open_engine :: TetrisEngine where
  "open_engine = \<lparr> rows = 4, cols = 4 \<rparr>"

definition open_state :: GameState where
  "open_state =
     \<lparr> board = [[None, None, None, None], [None, None, None, None],
                [None, None, None, None], [Some ''Z'', None, None, None]],
       current_piece = Some Tet_O,
       current_pos = (1, 1),
       current_rotation = 0,
       score = 40,
       lines_cleared = 3,
       game_over = False,
       move_count = 7 \<rparr>"

text \<open>
  The canonical scoring table \<open>{0: 0, 1: 100, 2: 300, 3: 500, 4: 800}\<close> with default 0,
  written as a lookup in the table.
\<close>

definition canonical_points :: "int \<Rightarrow> int" where
  "canonical_points n =
     (case map_of [(0, 0), (1, 100), (2, 300), (3, 500), (4, 800)] n of
        None \<Rightarrow> 0
      | Some v \<Rightarrow> v)"

text \<open>
  Sequences of engine operations: one call of the engine's five operations, and a run of
  calls that passes each state on to the next call and stops at the first exception.
\<close>

datatype EngineCall =
    CallSpawn Tetromino
  | CallMove TetrisAction
  | CallRotate bool
  | CallHardDrop
  | CallLock

fun run_call :: "TetrisEngine \<Rightarrow> GameState \<Rightarrow> EngineCall \<Rightarrow> (py_error + GameState) option" where
  "run_call E s (CallSpawn piece) = Some (map_sum id fst (spawn_piece E piece s))"
| "run_call E s (CallMove action) = Some (map_sum id fst (move E s action))"
| "run_call E s (CallRotate clockwise) = Some (map_sum id fst (rotate E s clockwise))"
| "run_call E s CallHardDrop = map_option (map_sum id fst) (hard_drop E s)"
| "run_call E s CallLock = Some (map_sum id fst (lock_piece E s))"

fun run_calls :: "TetrisEngine \<Rightarrow> GameState \<Rightarrow> EngineCall list \<Rightarrow> (py_error + GameState) option" where
  "run_calls E s [] = Some (Inr s)"
| "run_calls E s (c # cs) =
     (case run_call E s c of
        None \<Rightarrow> None
      | Some (Inl e) \<Rightarrow> Some (Inl e)
      | Some (Inr s') \<Rightarrow> run_calls E s' cs)"

text \<open>The engine the agent builds, and a short run on it from a new game.\<close>

definition standard_engine :: TetrisEngine where
  "standard_engine = \<lparr> rows = 20, cols = 10 \<rparr>"

definition sample_calls :: "EngineCall list" where
  "sample_calls = [CallSpawn Tet_O, CallMove MOVE_LEFT, CallRotate True, CallHardDrop,
                   CallSpawn Tet_I, CallMove MOVE_DOWN, CallLock]"

text \<open>
  The board that a lock has to produce according to the specification: the board with the
  piece's in-bounds cells merged (as \<open>_lock_piece\<close> merges them), every fully occupied
  row removed, as many empty rows put on top, and the remaining rows in their order.
\<close>

definition claimed_board :: "TetrisEngine \<Rightarrow> GameState \<Rightarrow> py_error + grid" where
  "claimed_board E s =
     (case get_piece_blocks (current_piece s) (current_rotation s) of
        Inl e \<Rightarrow> Inl e
      | Inr blocks \<Rightarrow>
          (case merge_blocks E s (board s) blocks of
             Inl e \<Rightarrow> Inl e
           | Inr merged \<Rightarrow>
               Inr (replicate (length (filter (list_all (\<lambda>c. c \<noteq> None)) merged))
                              (replicate (nat (cols E)) None)
                    @ filter (\<lambda>cells. \<not> list_all (\<lambda>c. c \<noteq> None) cells) merged)))"

text \<open>
  A standard board with a well two cells wide in its two lowest rows, one cell occupied in
  the row above them, and an \<open>O\<close> piece resting in the well.
\<close>

definition well_state :: GameState where
  "well_state =
     \<lparr> board = replicate 17 (replicate 10 None)
               @ [replicate 9 None @ [Some ''T'']]
               @ replicate 2 ([None, None] @ replicate 8 (Some ''I'')),
       current_piece = Some Tet_O,
       current_pos = (18, 0),
       current_rotation = 0,
       score = 0,
       lines_cleared = 0,
       game_over = False,
       move_count = 0 \<rparr>"

text \<open>
  The number of backtracks in the recent history according to the specification: the
  adjacent pairs, within the last 20 entries, whose actions are opposite, for both
  kinds of opposite pair.
\<close>

definition claimed_backtrack_count :: "dict list \<Rightarrow> int" where
  "claimed_backtrack_count history =
     (let recent = map (\<lambda>e. py_get e ''action'') (drop (length history - 20) history)
      in int (length (filter (\<lambda>(prev, curr).
                  (prev, curr) \<in> set [(VStr ''MOVE_LEFT'', VStr ''MOVE_RIGHT''),
                                      (VStr ''MOVE_RIGHT'', VStr ''MOVE_LEFT''),
                                      (VStr ''ROTATE_CW'', VStr ''ROTATE_CCW''),
                                      (VStr ''ROTATE_CCW'', VStr ''ROTATE_CW'')])
                (zip recent (tl recent)))))"

text \<open>
  The payloads that a session logs for a spawn followed by four accepted rotations that
  alternate between clockwise and counter-clockwise.
\<close>

definition rotation_history :: "dict list" where
  "rotation_history =
     [[(''stage'', VStr ''game_start''), (''action'', VStr ''SPAWN_PIECE''), (''piece'', VStr ''T''),
       (''position'', VTuple 0 3), (''mode'', VStr ''arcade_mode'')],
      [(''stage'', VStr ''game_action''), (''action'', VStr ''ROTATE_CW''),
       (''from_rotation'', VInt 0), (''to_rotation'', VInt 1), (''move_number'', VInt 1)],
      [(''stage'', VStr ''game_action''), (''action'', VStr ''ROTATE_CCW''),
       (''from_rotation'', VInt 1), (''to_rotation'', VInt 0), (''move_number'', VInt 2)],
      [(''stage'', VStr ''game_action''), (''action'', VStr ''ROTATE_CW''),
       (''from_rotation'', VInt 0), (''to_rotation'', VInt 1), (''move_number'', VInt 3)],
      [(''stage'', VStr ''game_action''), (''action'', VStr ''ROTATE_CCW''),
       (''from_rotation'', VInt 1), (''to_rotation'', VInt 0), (''move_number'', VInt 4)]]"

text \<open>
  A session as \<open>start_game\<close> leaves it: the agent with its standard engine and default
  limits, a log that holds the event of the first spawn, and an \<open>O\<close> piece at the spawn
  position of an empty board.
\<close>

definition demo_agent :: TetrisAgent where
  "demo_agent = TetrisAgent_init ''player-001'' ''arcade_mode''"

definition start_event :: Event where
  "start_event =
     \<lparr> state = RUNNING,
       payload = [(''stage'', VStr ''game_start''), (''action'', VStr ''SPAWN_PIECE''),
                  (''piece'', VStr ''O''), (''position'', VTuple 0 3),
                  (''mode'', VStr ''arcade_mode'')] \<rparr>"

definition fresh_store :: PostgresEventStore where
  "fresh_store = (\<lambda>_. [])((''player-001'', ''game-session-001'') := [start_event])"

definition fresh_state :: GameState where
  "fresh_state =
     \<lparr> board = replicate 20 (replicate 10 None),
       current_piece = Some Tet_O,
       current_pos = (0, 3),
       current_rotation = 0,
       score = 0,
       lines_cleared = 0,
       game_over = False,
       move_count = 0 \<rparr>"

definition fresh_execution :: TetrisExecution where
  "fresh_execution =
     \<lparr> tenant_id = ''player-001'',
       execution_id = ''game-session-001'',
       game_state = fresh_state,
       policy_validator = default_policies,
       engine = standard_engine \<rparr>"

text \<open>The state, the engine's event and the logged event of a hard drop in that session.\<close>

definition dropped_state :: GameState where
  "dropped_state =
     \<lparr> board = replicate 18 (replicate 10 None)
               @ replicate 2 ([None, None, None, Some ''O'', Some ''O''] @ replicate 5 None),
       current_piece = None,
       current_pos = (0, 3),
       current_rotation = 0,
       score = 36,
       lines_cleared = 0,
       game_over = False,
       move_count = 0 \<rparr>"

definition drop_payload :: dict where
  "drop_payload =
     [(''action'', VStr ''HARD_DROP''), (''from'', VTuple 0 3), (''to'', VTuple 18 3),
      (''drop_distance'', VInt 18), (''bonus_points'', VInt 36)]"

definition drop_event :: Event where
  "drop_event =
     \<lparr> state = RUNNING,
       payload = [(''stage'', VStr ''game_action''), (''action'', VStr ''HARD_DROP''),
                  (''from'', VTuple 0 3), (''to'', VTuple 18 3),
                  (''drop_distance'', VInt 18), (''bonus_points'', VInt 36)] \<rparr>"

text \<open>
  The same session after fifty moves of its first piece: one move down, then nine times
  four clockwise rotations and a move down, then four clockwise rotations. The log holds
  their events after the spawn's, the piece stands ten rows down, unrotated, and
  \<open>move_count\<close> is 50.
\<close>

definition down_event :: "int \<Rightarrow> int \<Rightarrow> Event" where
  "down_event n r =
     \<lparr> state = RUNNING,
       payload = [(''stage'', VStr ''game_action''), (''action'', VStr ''MOVE_DOWN''),
                  (''from'', VTuple r 3), (''to'', VTuple (r + 1) 3),
                  (''move_number'', VInt n)] \<rparr>"

definition cw_event :: "int \<Rightarrow> int \<Rightarrow> Event" where
  "cw_event n r =
     \<lparr> state = RUNNING,
       payload = [(''stage'', VStr ''game_action''), (''action'', VStr ''ROTATE_CW''),
                  (''from_rotation'', VInt r), (''to_rotation'', VInt ((r + 1) mod 4)),
                  (''move_number'', VInt n)] \<rparr>"

definition spin_events :: "int \<Rightarrow> Event list" where
  "spin_events n = [cw_event (n + 1) 0, cw_event (n + 2) 1, cw_event (n + 3) 2, cw_event (n + 4) 3]"

definition busy_log :: "Event list" where
  "busy_log =
     start_event # down_event 1 0
     # concat (map (\<lambda>g. spin_events (5 * g + 1) @ [down_event (5 * g + 6) (g + 1)]) [0, 1, 2, 3, 4, 5, 6, 7, 8])
     @ spin_events 46"

definition busy_store :: PostgresEventStore where
  "busy_store = (\<lambda>_. [])((''player-001'', ''game-session-001'') := busy_log)"

definition busy_execution :: TetrisExecution where
  "busy_execution =
     fresh_execution\<lparr>game_state := fresh_state\<lparr>current_pos := (10, 3), move_count := 50\<rparr>\<rparr>"

text \<open>The event that reports the policy violation of a \<open>LINE_CLEAR\<close> action in that session.\<close>

definition failed_event :: Event where
  "failed_event =
     \<lparr> state = FAILED,
       payload = [(''stage'', VStr ''policy_violation''), (''action'', VStr ''LINE_CLEAR''),
                  (''reason'', VStr ''Max moves per piece exceeded (50)''),
                  (''penalty_points'', VInt 50)] \<rparr>"

text \<open>
  The rows that a lock completes: the rows in \<open>range(rows)\<close> that are fully occupied once
  the piece's in-bounds cells are merged into the board and were not fully occupied
  before.
\<close>

definition rows_completed :: "TetrisEngine \<Rightarrow> GameState \<Rightarrow> py_error + int list" where
  "rows_completed E s =
     (case get_piece_blocks (current_piece s) (current_rotation s) of
        Inl e \<Rightarrow> Inl e
      | Inr blocks \<Rightarrow>
          (case merge_blocks E s (board s) blocks of
             Inl e \<Rightarrow> Inl e
           | Inr merged \<Rightarrow>
               Inr (map int (filter (\<lambda>r. list_all (\<lambda>c. c \<noteq> None) (merged ! r)
                                        \<and> \<not> list_all (\<lambda>c. c \<noteq> None) (board s ! r))
                                   [0 ..< nat (rows E)]))))"

text \<open>
  A run of engine calls from a new game. Four \<open>I\<close> pieces and an \<open>O\<close> piece are dropped so
  that the \<open>O\<close> completes the two lowest rows; the next \<open>O\<close> piece is spawned and moved
  down seventeen times. \<open>stale_state\<close> is the state the run ends in: the piece rests on
  row 19, which is fully occupied.
\<close>

definition stale_calls :: "EngineCall list" where
  "stale_calls =
     [CallSpawn Tet_I, CallMove MOVE_LEFT, CallHardDrop,
      CallSpawn Tet_I, CallMove MOVE_RIGHT, CallMove MOVE_RIGHT, CallMove MOVE_RIGHT, CallHardDrop,
      CallSpawn Tet_I, CallMove MOVE_LEFT, CallHardDrop,
      CallSpawn Tet_I, CallMove MOVE_RIGHT, CallMove MOVE_RIGHT, CallMove MOVE_RIGHT, CallHardDrop,
      CallSpawn Tet_O, CallMove MOVE_LEFT, CallMove MOVE_LEFT, CallMove MOVE_LEFT, CallHardDrop,
      CallSpawn Tet_O]
     @ replicate 17 (CallMove MOVE_DOWN)"

definition stale_state :: GameState where
  "stale_state =
     \<lparr> board = replicate 19 (replicate 10 None)
               @ [[Some ''O'', Some ''O''] @ replicate 8 (Some ''I'')],
       current_piece = Some Tet_O,
       current_pos = (17, 3),
       current_rotation = 0,
       score = 484,
       lines_cleared = 2,
       game_over = False,
       move_count = 28 \<rparr>"

section \<open>Properties of the engine\<close>

subsection \<open>Indexing\<close>

lemma py_index_nat: "py_index xs (int r) = Inr x \<Longrightarrow> x = xs ! r \<and> r < length xs"
  by (auto simp: py_index_def py_position_def split: if_splits)

lemma py_index_ok: "0 \<le> i \<Longrightarrow> i < int (length xs) \<Longrightarrow> py_index xs i = Inr (xs ! nat i)"
  by (simp add: py_index_def py_position_def)

lemma py_setitem_ok: "0 \<le> i \<Longrightarrow> i < int (length xs) \<Longrightarrow> py_setitem xs i v = Inr (xs[nat i := v])"
  by (simp add: py_setitem_def py_position_def)

lemma py_pop_ok:
  "0 \<le> i \<Longrightarrow> i < int (length xs) \<Longrightarrow> py_pop xs i = Inr (take (nat i) xs @ drop (Suc (nat i)) xs)"
  by (simp add: py_pop_def py_position_def)

subsection \<open>Locking on a board of the engine's size\<close>

lemma full_rows_filter:
  "full_rows g (map int rs) = Inr ls \<Longrightarrow>
     ls = map int (filter (\<lambda>r. list_all (\<lambda>c. c \<noteq> None) (g ! r)) rs)"
proof (induction rs arbitrary: ls)
  case Nil
  then show ?case by simp
next
  case (Cons r rs)
  then show ?case
    by (auto split: sum.splits if_splits dest!: py_index_nat)
qed

lemma full_rows_length:
  "full_rows g (map int [0 ..< nat (rows E)]) = Inr ls \<Longrightarrow> int (length ls) = count_full_rows E g"
  by (drule full_rows_filter) (simp add: count_full_rows_def)

lemma full_rows_total:
  "\<forall>r \<in> set rs. r < length g \<Longrightarrow> \<exists>ls. full_rows g (map int rs) = Inr ls"
proof (induction rs)
  case Nil
  then show ?case by simp
next
  case (Cons r rs)
  then obtain ls where "full_rows g (map int rs) = Inr ls" by auto
  moreover have "py_index g (int r) = Inr (g ! r)"
    using Cons.prems py_index_ok[of "int r" g] by simp
  ultimately show ?case by simp
qed

lemma board_fits_row:
  "board_fits E g \<Longrightarrow> 0 \<le> r \<Longrightarrow> r < rows E \<Longrightarrow> int (length (g ! nat r)) = cols E"
  by (auto simp: board_fits_def list_all_length)

lemma board_fits_update:
  "board_fits E g \<Longrightarrow> int (length cells) = cols E \<Longrightarrow> board_fits E (g[i := cells])"
  by (auto simp: board_fits_def list_all_iff dest!: set_update_subset_insert[THEN subsetD])

lemma merge_blocks_fits:
  "board_fits E g \<Longrightarrow> current_piece s = Some p \<Longrightarrow>
     \<exists>g'. merge_blocks E s g bs = Inr g' \<and> board_fits E g'"
proof (induction bs arbitrary: g)
  case Nil
  then show ?case by simp
next
  case (Cons b bs)
  obtain dr dc where b: "b = (dr, dc)" by (cases b)
  let ?row = "fst (current_pos s) + dr" and ?col = "snd (current_pos s) + dc"
  show ?case
  proof (cases "0 \<le> ?row \<and> ?row < rows E \<and> 0 \<le> ?col \<and> ?col < cols E")
    case True
    then have r: "py_index g ?row = Inr (g ! nat ?row)"
      using Cons.prems(1) by (intro py_index_ok) (auto simp: board_fits_def)
    have len: "int (length (g ! nat ?row)) = cols E"
      using True Cons.prems(1) by (intro board_fits_row) auto
    then have c: "py_setitem (g ! nat ?row) ?col (Some (tetromino_value p))
                    = Inr ((g ! nat ?row)[nat ?col := Some (tetromino_value p)])"
      using True by (intro py_setitem_ok) auto
    have "board_fits E (g[nat ?row := (g ! nat ?row)[nat ?col := Some (tetromino_value p)]])"
      using Cons.prems(1) len by (intro board_fits_update) auto
    from Cons.IH[OF this Cons.prems(2)] show ?thesis
      using True r c Cons.prems(2) by (simp add: b Let_def)
  next
    case False
    with Cons.IH[OF Cons.prems] show ?thesis by (auto simp: b Let_def)
  qed
qed

lemma clear_lines_fits:
  "board_fits E g \<Longrightarrow> \<forall>l \<in> set ls. 0 \<le> l \<and> l < rows E \<Longrightarrow>
     \<exists>g'. clear_lines E g ls = Inr g' \<and> board_fits E g'"
proof (induction ls arbitrary: g)
  case Nil
  then show ?case by simp
next
  case (Cons l ls)
  have l: "0 \<le> l" "l < int (length g)" "nat l < length g"
    using Cons.prems by (auto simp: board_fits_def)
  have pop: "py_pop g l = Inr (take (nat l) g @ drop (Suc (nat l)) g)"
    using l by (intro py_pop_ok)
  have "board_fits E (replicate (nat (cols E)) None # take (nat l) g @ drop (Suc (nat l)) g)"
  proof -
    have "set (take (nat l) g @ drop (Suc (nat l)) g) \<subseteq> set g"
      by (auto dest: in_set_takeD in_set_dropD)
    moreover have "0 \<le> cols E"
      using Cons.prems(1) l by (cases g) (auto simp: board_fits_def)
    ultimately show ?thesis
      using Cons.prems(1) l by (auto simp: board_fits_def list_all_iff)
  qed
  from Cons.IH[OF this] Cons.prems(2) pop show ?case by simp
qed

lemma lock_piece_total:
  assumes "board_fits E (board s)" and "current_piece s = Some p"
  shows "\<exists>s' ev. lock_piece E s = Inr (s', ev) \<and> board_fits E (board s')"
proof -
  obtain blocks where b: "get_piece_blocks (current_piece s) (current_rotation s) = Inr blocks"
    using assms(2) by (simp add: get_piece_blocks_def)
  obtain merged where m: "merge_blocks E s (board s) blocks = Inr merged" "board_fits E merged"
    using merge_blocks_fits[OF assms] by blast
  have "\<forall>r \<in> set [0 ..< nat (rows E)]. r < length merged"
    using m(2) by (auto simp: board_fits_def)
  then obtain ls where f: "full_rows merged (map int [0 ..< nat (rows E)]) = Inr ls"
    using full_rows_total by blast
  have "set ls \<subseteq> int ` {0 ..< nat (rows E)}"
    using full_rows_filter[OF f] by auto
  then have "\<forall>l \<in> set (rev (sort ls)). 0 \<le> l \<and> l < rows E" by auto
  then obtain nb where c: "clear_lines E merged (rev (sort ls)) = Inr nb" "board_fits E nb"
    using clear_lines_fits[OF m(2)] by blast
  show ?thesis
    using b m(1) f c assms(2) by (simp add: lock_piece_def Let_def)
qed

subsection \<open>Scoring of a lock\<close>

text \<open>
  What \<open>_lock_piece\<close> counts is every fully occupied row of the board after the merge:
  whenever it returns, the score has grown by the table value for that number (0 above 4)
  and \<open>lines_cleared\<close> by that number.
\<close>

lemma lock_piece_counts_full_rows:
  assumes "lock_piece E s = Inr (s', ev)"
  shows "\<exists>blocks merged k.
           get_piece_blocks (current_piece s) (current_rotation s) = Inr blocks
         \<and> merge_blocks E s (board s) blocks = Inr merged
         \<and> k = count_full_rows E merged
         \<and> score s' = score s + (if 0 \<le> k \<and> k \<le> 4 then [0, 100, 300, 500, 800] ! nat k else 0)
         \<and> lines_cleared s' = lines_cleared s + k"
proof -
  from assms obtain blocks merged ls nb p where
    b: "get_piece_blocks (current_piece s) (current_rotation s) = Inr blocks" and
    m: "merge_blocks E s (board s) blocks = Inr merged" and
    f: "full_rows merged (map int [0 ..< nat (rows E)]) = Inr ls" and
    s': "score s' = score s + points_get (int (length ls))"
        "lines_cleared s' = lines_cleared s + int (length ls)"
    by (auto simp: lock_piece_def Let_def split: sum.splits option.splits)
  have k: "int (length ls) = count_full_rows E merged"
    using f by (rule full_rows_length)
  have "points_get j = (if 0 \<le> j \<and> j \<le> 4 then [0, 100, 300, 500, 800] ! nat j else 0)" for j
  proof -
    consider "j < 0" | "j = 0" | "j = 1" | "j = 2" | "j = 3" | "j = 4" | "j > 4" by linarith
    then show ?thesis by cases (simp_all add: points_get_def)
  qed
  with b m k s' show ?thesis by simp
qed

text \<open>
  The merge only fills cells, so a row that is fully occupied before the lock is fully
  occupied after the merge. The rows counted are therefore the rows that were fully
  occupied before the lock and the rows that the piece completes.
\<close>

lemma py_setitem_keeps_full:
  "py_setitem cells col (Some v) = Inr cells' \<Longrightarrow> list_all (\<lambda>c. c \<noteq> None) cells
     \<Longrightarrow> list_all (\<lambda>c. c \<noteq> None) cells'"
  by (auto simp: py_setitem_def list_all_iff split: option.splits dest!: set_update_subset_insert[THEN subsetD])

lemma merge_blocks_keeps_full:
  "merge_blocks E s g bs = Inr g' \<Longrightarrow> list_all (\<lambda>c. c \<noteq> None) (g ! r)
     \<Longrightarrow> list_all (\<lambda>c. c \<noteq> None) (g' ! r)"
proof (induction bs arbitrary: g)
  case Nil
  then show ?case by simp
next
  case (Cons b bs)
  obtain dr dc where b: "b = (dr, dc)" by (cases b)
  let ?row = "fst (current_pos s) + dr" and ?col = "snd (current_pos s) + dc"
  show ?case
  proof (cases "0 \<le> ?row \<and> ?row < rows E \<and> 0 \<le> ?col \<and> ?col < cols E")
    case False
    with Cons show ?thesis by (auto simp: b Let_def)
  next
    case True
    with Cons.prems(1) obtain p cells cells' where
      idx: "py_index g ?row = Inr cells" and
      set: "py_setitem cells ?col (Some (tetromino_value p)) = Inr cells'" and
      rest: "merge_blocks E s (g[nat ?row := cells']) bs = Inr g'"
      by (auto simp: b Let_def split: option.splits sum.splits)
    from idx True have cells: "cells = g ! nat ?row" "nat ?row < length g"
      by (auto simp: py_index_def py_position_def split: if_splits)
    have "list_all (\<lambda>c. c \<noteq> None) (g[nat ?row := cells'] ! r)"
    proof (cases "r = nat ?row")
      case True
      then have "list_all (\<lambda>c. c \<noteq> None) cells" using Cons.prems(2) cells by simp
      from py_setitem_keeps_full[OF set this] show ?thesis
        using True cells(2) by simp
    next
      case False
      then show ?thesis using Cons.prems(2) by simp
    qed
    from Cons.IH[OF rest this] show ?thesis .
  qed
qed

lemma filter_count_split:
  "\<forall>x \<in> set xs. Q x \<longrightarrow> P x \<Longrightarrow>
     length (filter P xs) = length (filter Q xs) + length (filter (\<lambda>x. P x \<and> \<not> Q x) xs)"
  by (induction xs) auto

lemma lock_piece_counts_completed:
  assumes "lock_piece E s = Inr (s', ev)"
  shows "\<exists>completed n.
           rows_completed E s = Inr completed
         \<and> n = count_full_rows E (board s) + int (length completed)
         \<and> score s' = score s + (if 0 \<le> n \<and> n \<le> 4 then [0, 100, 300, 500, 800] ! nat n else 0)
         \<and> lines_cleared s' = lines_cleared s + n"
proof -
  from lock_piece_counts_full_rows[OF assms] obtain blocks merged where
    b: "get_piece_blocks (current_piece s) (current_rotation s) = Inr blocks" and
    m: "merge_blocks E s (board s) blocks = Inr merged" and
    sc: "score s' = score s + (if 0 \<le> count_full_rows E merged \<and> count_full_rows E merged \<le> 4
                               then [0, 100, 300, 500, 800] ! nat (count_full_rows E merged) else 0)" and
    lc: "lines_cleared s' = lines_cleared s + count_full_rows E merged"
    by auto
  let ?full = "list_all (\<lambda>c. c \<noteq> None)"
  let ?completed = "map int (filter (\<lambda>r. ?full (merged ! r) \<and> \<not> ?full (board s ! r)) [0 ..< nat (rows E)])"
  have rc: "rows_completed E s = Inr ?completed"
    using b m by (simp add: rows_completed_def)
  have "\<forall>r \<in> set [0 ..< nat (rows E)]. ?full (board s ! r) \<longrightarrow> ?full (merged ! r)"
    using merge_blocks_keeps_full[OF m] by blast
  from filter_count_split[OF this]
  have "count_full_rows E merged = count_full_rows E (board s) + int (length ?completed)"
    by (simp add: count_full_rows_def)
  with rc sc lc show ?thesis by simp
qed

text \<open>
  On a board without a fully occupied row, a lock that completes \<open>k\<close> rows adds the table
  value for \<open>k\<close> to the score and \<open>k\<close> to \<open>lines_cleared\<close>.
\<close>

lemma lock_piece_score_clean_board:
  assumes "lock_piece E s = Inr (s', ev)" and "count_full_rows E (board s) = 0"
  shows "\<exists>completed k.
           rows_completed E s = Inr completed
         \<and> k = int (length completed)
         \<and> score s' = score s + (if k \<le> 4 then [0, 100, 300, 500, 800] ! nat k else 0)
         \<and> lines_cleared s' = lines_cleared s + k"
  using lock_piece_counts_completed[OF assms(1)] assms(2) by auto

subsection \<open>Clearing rows\<close>

text \<open>
  When a lock on a board of the engine's size completes at most one row, the board it
  returns is the board of the specification.
\<close>

lemma filter_upt_empty:
  "filter P [0 ..< n] = [] \<Longrightarrow> i < n \<Longrightarrow> \<not> P i"
  by (auto simp: filter_empty_conv)

lemma filter_upt_single:
  assumes "filter P [0 ..< n] = [l]"
  shows "l < n \<and> P l \<and> (\<forall>i < n. i \<noteq> l \<longrightarrow> \<not> P i)"
proof -
  have "set (filter P [0 ..< n]) = {l}" using assms by simp
  then have "{i. i < n \<and> P i} = {l}" by (auto simp: set_eq_iff)
  then show ?thesis by blast
qed

lemma filter_rows_none:
  "\<forall>i < length g. \<not> P (g ! i) \<Longrightarrow> filter P g = [] \<and> filter (\<lambda>x. \<not> P x) g = g"
  by (auto simp: filter_empty_conv filter_id_conv in_set_conv_nth)

lemma filter_rows_single:
  assumes "l < length g" and "P (g ! l)" and "\<forall>i < length g. i \<noteq> l \<longrightarrow> \<not> P (g ! i)"
  shows "filter P g = [g ! l] \<and> filter (\<lambda>x. \<not> P x) g = take l g @ drop (Suc l) g"
proof -
  have split: "g = take l g @ g ! l # drop (Suc l) g"
    using assms(1) by (rule id_take_nth_drop)
  have front: "\<forall>x \<in> set (take l g). \<not> P x"
  proof
    fix x assume "x \<in> set (take l g)"
    then obtain i where "i < l" "x = g ! i"
      using assms(1) by (auto simp: in_set_conv_nth)
    with assms(1,3) show "\<not> P x" by auto
  qed
  have behind: "\<forall>x \<in> set (drop (Suc l) g). \<not> P x"
  proof
    fix x assume "x \<in> set (drop (Suc l) g)"
    then obtain i where "i < length g - Suc l" "x = g ! (Suc l + i)"
      by (auto simp: in_set_conv_nth)
    with assms(3) show "\<not> P x" by auto
  qed
  have "filter P g = filter P (take l g) @ filter P [g ! l] @ filter P (drop (Suc l) g)"
    by (subst split) simp
  moreover have "filter (\<lambda>x. \<not> P x) g
                   = filter (\<lambda>x. \<not> P x) (take l g) @ filter (\<lambda>x. \<not> P x) [g ! l]
                     @ filter (\<lambda>x. \<not> P x) (drop (Suc l) g)"
    by (subst split) simp
  ultimately show ?thesis
    using front behind assms(2) by (simp add: filter_empty_conv filter_id_conv)
qed

lemma lock_piece_one_row_claimed:
  assumes fits: "board_fits E (board s)" and piece: "current_piece s = Some p"
    and lock: "lock_piece E s = Inr (s', ev)"
    and few: "lines_cleared s' \<le> lines_cleared s + 1"
  shows "claimed_board E s = Inr (board s')"
proof -
  obtain blocks where b: "get_piece_blocks (current_piece s) (current_rotation s) = Inr blocks"
    using piece by (simp add: get_piece_blocks_def)
  obtain merged where m: "merge_blocks E s (board s) blocks = Inr merged" "board_fits E merged"
    using merge_blocks_fits[OF fits piece] by blast
  let ?full = "list_all (\<lambda>c. c \<noteq> None)"
  let ?idx = "filter (\<lambda>r. ?full (merged ! r)) [0 ..< nat (rows E)]"
  have len: "nat (rows E) = length merged"
    using m(2) by (auto simp: board_fits_def)
  from lock b m(1) obtain ls nb where
    f: "full_rows merged (map int [0 ..< nat (rows E)]) = Inr ls" and
    c: "clear_lines E merged (rev (sort ls)) = Inr nb" and
    s': "board s' = nb" "lines_cleared s' = lines_cleared s + int (length ls)"
    by (auto simp: lock_piece_def Let_def split: sum.splits option.splits)
  have ls: "ls = map int ?idx" using f by (rule full_rows_filter)
  from few s'(2) have "length ls \<le> 1" by simp
  then consider (none) "?idx = []" | (one) l where "?idx = [l]"
    using ls by (cases ?idx) (auto simp: length_Suc_conv)
  then show ?thesis
  proof cases
    case none
    then have "\<forall>i < length merged. \<not> ?full (merged ! i)"
      using filter_upt_empty[of "\<lambda>r. ?full (merged ! r)" "nat (rows E)"] len by auto
    from filter_rows_none[OF this] have "filter ?full merged = []"
      "filter (\<lambda>x. \<not> ?full x) merged = merged" by auto
    moreover have "nb = merged" using c ls none by simp
    ultimately show ?thesis
      using b m(1) s'(1) by (simp add: claimed_board_def)
  next
    case one
    from filter_upt_single[OF one] len have l: "l < length merged" "?full (merged ! l)"
      "\<forall>i < length merged. i \<noteq> l \<longrightarrow> \<not> ?full (merged ! i)" by auto
    from filter_rows_single[OF l] have
      "filter ?full merged = [merged ! l]"
      "filter (\<lambda>x. \<not> ?full x) merged = take l merged @ drop (Suc l) merged" by auto
    moreover have "py_pop merged (int l) = Inr (take l merged @ drop (Suc l) merged)"
      using l(1) py_pop_ok[of "int l" merged] by simp
    then have "nb = replicate (nat (cols E)) None # take l merged @ drop (Suc l) merged"
      using c ls one by simp
    ultimately show ?thesis
      using b m(1) s'(1) by (simp add: claimed_board_def)
  qed
qed

text \<open>
  C1. The claim fails on the code when a lock completes two rows. On \<open>well_state\<close> the
  lock completes rows 18 and 19. \<open>_lock_piece\<close> pops row 19 and inserts an empty row on
  top, which moves the other completed row to index 19; it then pops index 18, which now
  holds the incomplete row 17. The board it returns keeps a fully occupied bottom row and
  has lost the row with the \<open>T\<close> cell, where the specified board keeps that row at the
  bottom.
\<close>

theorem lock_piece_two_rows_wrong:
  "lock_piece standard_engine well_state =
     Inr (\<lparr> board = replicate 19 (replicate 10 None)
                     @ [[Some ''O'', Some ''O''] @ replicate 8 (Some ''I'')],
            current_piece = None, current_pos = (0, 3), current_rotation = 0,
            score = 300, lines_cleared = 2, game_over = False, move_count = 0 \<rparr>,
          [(''action'', VStr ''PIECE_LOCKED''), (''piece'', VStr ''O''),
           (''position'', VTuple 18 0), (''lines_cleared'', VInt 2),
           (''cleared_rows'', VList [18, 19]), (''points_earned'', VInt 300),
           (''total_score'', VInt 300)])
   \<and> claimed_board standard_engine well_state =
       Inr (replicate 19 (replicate 10 None) @ [replicate 9 None @ [Some ''T'']])"
  unfolding standard_engine_def well_state_def by code_simp

subsection \<open>A lock next to a row that was left fully occupied\<close>

lemma stale_state_reached:
  "run_calls standard_engine (new_game 20 10) stale_calls = Some (Inr stale_state)"
  unfolding standard_engine_def stale_calls_def stale_state_def by code_simp

lemma stale_state_move_down:
  "move standard_engine stale_state MOVE_DOWN
     = (case lock_piece standard_engine stale_state of
          Inl e \<Rightarrow> Inl e | Inr (s', ev) \<Rightarrow> Inr (s', Some ev))"
  unfolding standard_engine_def stale_state_def by code_simp

text \<open>
  C4. The claim fails on the code in the state that the run \<open>stale_calls\<close> reaches from a
  new game. The two-row clear of that run has left row 19 fully occupied (the defect of
  C1). The \<open>O\<close> piece that comes to rest on it completes no row, yet \<open>_lock_piece\<close> finds
  row 19 in its scan of every row: the score grows by 100, from 484 to 584, and
  \<open>lines_cleared\<close> by 1, from 2 to 3, where the claim has 0 for both.
\<close>

theorem lock_piece_scores_stale_row:
  "rows_completed standard_engine stale_state = Inr []
   \<and> score stale_state = 484
   \<and> lines_cleared stale_state = 2
   \<and> lock_piece standard_engine stale_state =
       Inr (\<lparr> board = replicate 18 (replicate 10 None)
                       @ replicate 2 ([None, None, None, Some ''O'', Some ''O''] @ replicate 5 None),
              current_piece = None, current_pos = (0, 3), current_rotation = 0,
              score = 584, lines_cleared = 3, game_over = False, move_count = 28 \<rparr>,
            [(''action'', VStr ''PIECE_LOCKED''), (''piece'', VStr ''O''),
             (''position'', VTuple 17 3), (''lines_cleared'', VInt 1),
             (''cleared_rows'', VList [19]), (''points_earned'', VInt 100),
             (''total_score'', VInt 584)])"
  unfolding standard_engine_def stale_state_def by code_simp

subsection \<open>Blocked and accepted moves\<close>

text \<open>
  The candidate states that \<open>move\<close> and \<open>rotate\<close> build field by field are the input
  state with a new position or rotation and one more move.
\<close>

lemma move_candidate:
  "\<lparr> board = board s, current_piece = current_piece s, current_pos = np,
     current_rotation = current_rotation s, score = score s, lines_cleared = lines_cleared s,
     game_over = game_over s, move_count = move_count s + 1 \<rparr>
   = s\<lparr>current_pos := np, move_count := move_count s + 1\<rparr>"
  by simp

lemma rotate_candidate:
  "\<lparr> board = board s, current_piece = current_piece s, current_pos = current_pos s,
     current_rotation = nr, score = score s, lines_cleared = lines_cleared s,
     game_over = game_over s, move_count = move_count s + 1 \<rparr>
   = s\<lparr>current_rotation := nr, move_count := move_count s + 1\<rparr>"
  by simp

lemma small_state_blocked:
  "check_collision small_engine
     (small_state\<lparr>current_pos := (fst (current_pos small_state), snd (current_pos small_state) - 1),
                  move_count := move_count small_state + 1\<rparr>) = Inr True"
  "check_collision small_engine
     (small_state\<lparr>current_pos := (fst (current_pos small_state), snd (current_pos small_state) + 1),
                  move_count := move_count small_state + 1\<rparr>) = Inr True"
  "check_collision small_engine
     (small_state\<lparr>current_rotation := (current_rotation small_state + 1) mod 4,
                  move_count := move_count small_state + 1\<rparr>) = Inr True"
  "check_collision small_engine
     (small_state\<lparr>current_rotation := (current_rotation small_state - 1) mod 4,
                  move_count := move_count small_state + 1\<rparr>) = Inr True"
  "check_collision small_engine
     (small_state\<lparr>current_pos := (fst (current_pos small_state) + 1, snd (current_pos small_state)),
                  move_count := move_count small_state + 1\<rparr>) = Inr True"
  unfolding small_engine_def small_state_def by code_simp+

lemma open_state_free:
  "check_collision open_engine
     (open_state\<lparr>current_pos := (1, 0), move_count := move_count open_state + 1\<rparr>) = Inr False"
  "check_collision open_engine
     (open_state\<lparr>current_rotation := 1, move_count := move_count open_state + 1\<rparr>) = Inr False"
  unfolding open_engine_def open_state_def by code_simp+

text \<open>
  C7. On a state with no active piece or with the game-over flag set, \<open>move\<close> (for any
  action), \<open>rotate\<close> and \<open>hard_drop\<close> return the input state unchanged with a null
  event, without raising. With an active piece and the game running, a move left or
  right and a rotation in either direction whose candidate state collides return the
  input state unchanged with a null event; a colliding move down returns what
  \<open>_lock_piece\<close> returns on the input state.
\<close>

theorem blocked_is_noop:
  "(current_piece s = None \<or> game_over s \<longrightarrow>
      move E s a = Inr (s, None) \<and> rotate E s cw = Inr (s, None)
      \<and> hard_drop E s = Some (Inr (s, None)))
   \<and> (current_piece s \<noteq> None \<and> \<not> game_over s \<longrightarrow>
        (check_collision E (s\<lparr>current_pos := (fst (current_pos s), snd (current_pos s) - 1),
                               move_count := move_count s + 1\<rparr>) = Inr True
           \<longrightarrow> move E s MOVE_LEFT = Inr (s, None))
      \<and> (check_collision E (s\<lparr>current_pos := (fst (current_pos s), snd (current_pos s) + 1),
                               move_count := move_count s + 1\<rparr>) = Inr True
           \<longrightarrow> move E s MOVE_RIGHT = Inr (s, None))
      \<and> (check_collision E (s\<lparr>current_rotation := (current_rotation s + 1) mod 4,
                               move_count := move_count s + 1\<rparr>) = Inr True
           \<longrightarrow> rotate E s True = Inr (s, None))
      \<and> (check_collision E (s\<lparr>current_rotation := (current_rotation s - 1) mod 4,
                               move_count := move_count s + 1\<rparr>) = Inr True
           \<longrightarrow> rotate E s False = Inr (s, None))
      \<and> (check_collision E (s\<lparr>current_pos := (fst (current_pos s) + 1, snd (current_pos s)),
                               move_count := move_count s + 1\<rparr>) = Inr True
           \<longrightarrow> move E s MOVE_DOWN
                 = (case lock_piece E s of Inl e \<Rightarrow> Inl e | Inr (s', ev) \<Rightarrow> Inr (s', Some ev))))"
  unfolding move_def rotate_def hard_drop_def Let_def move_candidate rotate_candidate
  by simp

theorem blocked_is_noop_witness:
  "(current_piece small_state \<noteq> None \<and> \<not> game_over small_state)
   \<and> move small_engine small_state MOVE_LEFT = Inr (small_state, None)
   \<and> move small_engine small_state MOVE_RIGHT = Inr (small_state, None)
   \<and> rotate small_engine small_state True = Inr (small_state, None)
   \<and> rotate small_engine small_state False = Inr (small_state, None)
   \<and> move small_engine small_state MOVE_DOWN
       = (case lock_piece small_engine small_state of
            Inl e \<Rightarrow> Inl e | Inr (s', ev) \<Rightarrow> Inr (s', Some ev))
   \<and> game_over (small_state\<lparr>game_over := True\<rparr>)
   \<and> move small_engine (small_state\<lparr>game_over := True\<rparr>) MOVE_DOWN
       = Inr (small_state\<lparr>game_over := True\<rparr>, None)
   \<and> rotate small_engine (small_state\<lparr>game_over := True\<rparr>) True
       = Inr (small_state\<lparr>game_over := True\<rparr>, None)
   \<and> hard_drop small_engine (small_state\<lparr>game_over := True\<rparr>)
       = Some (Inr (small_state\<lparr>game_over := True\<rparr>, None))"
proof -
  have live: "current_piece small_state \<noteq> None \<and> \<not> game_over small_state"
    by (simp add: small_state_def)
  have over: "game_over (small_state\<lparr>game_over := True\<rparr>)"
    by simp
  show ?thesis
    using blocked_is_noop [of small_state small_engine MOVE_DOWN True]
          blocked_is_noop [of "small_state\<lparr>game_over := True\<rparr>" small_engine MOVE_DOWN True]
          live over small_state_blocked
    by simp
qed

text \<open>
  C9. With an active piece and the game running, a move left, right or down whose
  candidate position does not collide is accepted (it returns an event) and the new
  state is the input state with the candidate position and \<open>move_count\<close> increased by
  one; a rotation whose candidate rotation does not collide is accepted and the new
  state is the input state with the candidate rotation index and \<open>move_count\<close>
  increased by one. Board, score, \<open>lines_cleared\<close>, \<open>game_over\<close> and the current piece
  are those of the input state.
\<close>

theorem accepted_move_frame:
  assumes "current_piece s \<noteq> None" and "\<not> game_over s"
  shows "(a \<in> {MOVE_LEFT, MOVE_RIGHT, MOVE_DOWN}
          \<and> np = (if a = MOVE_LEFT then (fst (current_pos s), snd (current_pos s) - 1)
                   else if a = MOVE_RIGHT then (fst (current_pos s), snd (current_pos s) + 1)
                   else (fst (current_pos s) + 1, snd (current_pos s)))
          \<and> check_collision E (s\<lparr>current_pos := np, move_count := move_count s + 1\<rparr>) = Inr False
          \<longrightarrow> (\<exists>ev. move E s a = Inr (s\<lparr>current_pos := np, move_count := move_count s + 1\<rparr>, Some ev)))
       \<and> (nr = (current_rotation s + (if cw then 1 else - 1)) mod 4
          \<and> check_collision E (s\<lparr>current_rotation := nr, move_count := move_count s + 1\<rparr>) = Inr False
          \<longrightarrow> (\<exists>ev. rotate E s cw = Inr (s\<lparr>current_rotation := nr, move_count := move_count s + 1\<rparr>, Some ev)))"
  using assms
  unfolding move_def rotate_def Let_def move_candidate rotate_candidate
  by auto

theorem accepted_move_frame_witness:
  "current_piece open_state \<noteq> None \<and> \<not> game_over open_state
   \<and> check_collision open_engine
        (open_state\<lparr>current_pos := (1, 0), move_count := move_count open_state + 1\<rparr>) = Inr False
   \<and> (\<exists>ev. move open_engine open_state MOVE_LEFT
              = Inr (open_state\<lparr>current_pos := (1, 0), move_count := move_count open_state + 1\<rparr>, Some ev))
   \<and> check_collision open_engine
        (open_state\<lparr>current_rotation := 1, move_count := move_count open_state + 1\<rparr>) = Inr False
   \<and> (\<exists>ev. rotate open_engine open_state True
              = Inr (open_state\<lparr>current_rotation := 1, move_count := move_count open_state + 1\<rparr>, Some ev))"
proof -
  have live: "current_piece open_state \<noteq> None" "\<not> game_over open_state"
    by (simp_all add: open_state_def)
  have pos: "current_pos open_state = (1, 1)" and rot: "current_rotation open_state = 0"
    by (simp_all add: open_state_def)
  show ?thesis
    using accepted_move_frame [OF live, of MOVE_LEFT "(1, 0)" open_engine 1 True]
          live open_state_free pos rot
    by simp
qed

subsection \<open>The hard-drop loop\<close>

lemma step_down_update:
  "step_down s = s\<lparr>current_pos := (fst (current_pos s) + 1, snd (current_pos s))\<rparr>"
  by (simp add: step_down_def)

lemma rotate_times_length: "length (rotate_times n bs) = length bs"
  by (induction n arbitrary: bs) (simp_all add: rotate_blocks_def)

lemma piece_blocks_nonempty:
  "\<exists>dr dc bs. get_piece_blocks (Some p) rot = Inr ((dr, dc) # bs)"
proof -
  have "length (rotate_times (nat rot) (SHAPES p)) = 4"
    by (cases p) (simp_all add: rotate_times_length)
  then obtain b bs where "rotate_times (nat rot) (SHAPES p) = b # bs"
    by (cases "rotate_times (nat rot) (SHAPES p)") auto
  then show ?thesis
    by (cases b) (simp add: get_piece_blocks_def)
qed

lemma collision_loop_total:
  "board_fits E (board s) \<Longrightarrow> \<exists>hit. collision_loop E s bs = Inr hit"
proof (induction bs)
  case Nil
  then show ?case by auto
next
  case (Cons b bs)
  obtain dr dc where b: "b = (dr, dc)" by (cases b)
  let ?row = "fst (current_pos s) + dr" and ?col = "snd (current_pos s) + dc"
  show ?case
  proof (cases "?row < 0 \<or> ?row \<ge> rows E \<or> ?col < 0 \<or> ?col \<ge> cols E")
    case True
    then show ?thesis by (auto simp: b Let_def)
  next
    case False
    then have r: "py_index (board s) ?row = Inr (board s ! nat ?row)"
      using Cons.prems by (intro py_index_ok) (auto simp: board_fits_def)
    have "int (length (board s ! nat ?row)) = cols E"
      using False Cons.prems by (intro board_fits_row) auto
    then have c: "py_index (board s ! nat ?row) ?col = Inr (board s ! nat ?row ! nat ?col)"
      using False by (intro py_index_ok) auto
    from Cons.IH[OF Cons.prems] r c False show ?thesis
      by (auto simp: b Let_def)
  qed
qed

lemma check_collision_total:
  "board_fits E (board s) \<Longrightarrow> \<exists>hit. check_collision E s = Inr hit"
proof (cases "current_piece s")
  case None
  then show ?thesis by (auto simp: check_collision_def)
next
  case (Some p)
  assume "board_fits E (board s)"
  then show ?thesis
    using Some collision_loop_total[of E s]
    by (auto simp: check_collision_def get_piece_blocks_def)
qed

lemma check_collision_free_row:
  assumes "check_collision E s = Inr False" and "current_piece s = Some p"
    and "get_piece_blocks (Some p) (current_rotation s) = Inr ((dr, dc) # bs)"
  shows "fst (current_pos s) + dr < rows E"
proof (rule ccontr)
  assume "\<not> fst (current_pos s) + dr < rows E"
  then have "collision_loop E s ((dr, dc) # bs) = Inr True"
    by (simp add: Let_def)
  with assms show False
    by (simp add: check_collision_def)
qed

lemma drop_loop_result:
  assumes "current_piece s = Some p"
  shows "\<exists>r. drop_loop E s d = Some r
           \<and> (board_fits E (board s) \<longrightarrow> (\<exists>cs d'. r = Inr (cs, d')))
           \<and> (\<forall>cs d'. r = Inr (cs, d') \<longrightarrow>
                (\<exists>k. 0 \<le> k \<and> d' = d + k
                   \<and> cs = s\<lparr>current_pos := (fst (current_pos s) + k, snd (current_pos s))\<rparr>
                   \<and> (\<forall>j. 1 \<le> j \<and> j \<le> k \<longrightarrow>
                         check_collision E (s\<lparr>current_pos := (fst (current_pos s) + j, snd (current_pos s))\<rparr>)
                           = Inr False)
                   \<and> check_collision E (s\<lparr>current_pos := (fst (current_pos s) + k + 1, snd (current_pos s))\<rparr>)
                       = Inr True))"
proof -
  obtain dr dc bs where blocks: "get_piece_blocks (Some p) (current_rotation s) = Inr ((dr, dc) # bs)"
    using piece_blocks_nonempty by blast
  define rot where "rot = current_rotation s"
  have "current_piece s = Some p \<and> current_rotation s = rot" using assms rot_def by simp
  moreover have blocks': "get_piece_blocks (Some p) rot = Inr ((dr, dc) # bs)"
    using blocks rot_def by simp
  ultimately show ?thesis
  proof (induction "nat (rows E - dr - fst (current_pos s))" arbitrary: s d rule: less_induct)
    case less
    let ?t = "step_down s"
    have t: "?t = s\<lparr>current_pos := (fst (current_pos s) + 1, snd (current_pos s))\<rparr>"
      by (rule step_down_update)
    have tp: "current_piece ?t = Some p \<and> current_rotation ?t = rot"
      using less.prems(1) by (simp add: t)
    consider (err) e where "check_collision E ?t = Inl e"
      | (hit) "check_collision E ?t = Inr True"
      | (free) "check_collision E ?t = Inr False"
      by (cases "check_collision E ?t") auto
    then show ?case
    proof cases
      case err
      then have "drop_loop E s d = Some (Inl e)"
        by (subst drop_loop.simps) simp
      moreover have "\<not> board_fits E (board s)"
        using err check_collision_total[of E ?t] by (auto simp: t)
      ultimately show ?thesis by simp
    next
      case hit
      then have run: "drop_loop E s d = Some (Inr (s, d))"
        by (subst drop_loop.simps) simp
      have next_hit: "check_collision E (s\<lparr>current_pos := (fst (current_pos s) + 0 + 1, snd (current_pos s))\<rparr>) = Inr True"
        using hit by (simp add: t)
      have same: "s\<lparr>current_pos := (fst (current_pos s) + 0, snd (current_pos s))\<rparr> = s"
        by simp
      have "\<exists>k. 0 \<le> k \<and> d = d + k
                   \<and> s = s\<lparr>current_pos := (fst (current_pos s) + k, snd (current_pos s))\<rparr>
                   \<and> (\<forall>j. 1 \<le> j \<and> j \<le> k \<longrightarrow>
                         check_collision E (s\<lparr>current_pos := (fst (current_pos s) + j, snd (current_pos s))\<rparr>)
                           = Inr False)
                   \<and> check_collision E (s\<lparr>current_pos := (fst (current_pos s) + k + 1, snd (current_pos s))\<rparr>)
                       = Inr True"
      proof (intro exI[of _ "0::int"] conjI allI impI)
        show "s = s\<lparr>current_pos := (fst (current_pos s) + 0, snd (current_pos s))\<rparr>"
          by (rule same[symmetric])
        show "check_collision E (s\<lparr>current_pos := (fst (current_pos s) + 0 + 1, snd (current_pos s))\<rparr>) = Inr True"
          by (rule next_hit)
        show "check_collision E (s\<lparr>current_pos := (fst (current_pos s) + j, snd (current_pos s))\<rparr>) = Inr False"
          if "1 \<le> j \<and> j \<le> 0" for j
          using that by linarith
      qed simp_all
      with run show ?thesis by simp
    next
      case free
      then have unfold: "drop_loop E s d = drop_loop E ?t (d + 1)"
        by (subst drop_loop.simps) simp
      have "fst (current_pos ?t) + dr < rows E"
        using check_collision_free_row[OF free] tp less.prems(2) by simp
      then have "nat (rows E - dr - fst (current_pos ?t)) < nat (rows E - dr - fst (current_pos s))"
        by (simp add: t)
      from less.hyps[OF this tp less.prems(2), of "d + 1"]
      obtain r where r: "drop_loop E ?t (d + 1) = Some r"
        and fits: "board_fits E (board ?t) \<longrightarrow> (\<exists>cs d'. r = Inr (cs, d'))"
        and spec: "\<forall>cs d'. r = Inr (cs, d') \<longrightarrow>
                (\<exists>k. 0 \<le> k \<and> d' = d + 1 + k
                   \<and> cs = ?t\<lparr>current_pos := (fst (current_pos ?t) + k, snd (current_pos ?t))\<rparr>
                   \<and> (\<forall>j. 1 \<le> j \<and> j \<le> k \<longrightarrow>
                         check_collision E (?t\<lparr>current_pos := (fst (current_pos ?t) + j, snd (current_pos ?t))\<rparr>)
                           = Inr False)
                   \<and> check_collision E (?t\<lparr>current_pos := (fst (current_pos ?t) + k + 1, snd (current_pos ?t))\<rparr>)
                       = Inr True)"
        by blast
      have pos: "?t\<lparr>current_pos := (fst (current_pos ?t) + j, snd (current_pos ?t))\<rparr>
                 = s\<lparr>current_pos := (fst (current_pos s) + (j + 1), snd (current_pos s))\<rparr>" for j
        by (simp add: t add.assoc add.commute)
      have "\<exists>k. 0 \<le> k \<and> d' = d + k
                   \<and> cs = s\<lparr>current_pos := (fst (current_pos s) + k, snd (current_pos s))\<rparr>
                   \<and> (\<forall>j. 1 \<le> j \<and> j \<le> k \<longrightarrow>
                         check_collision E (s\<lparr>current_pos := (fst (current_pos s) + j, snd (current_pos s))\<rparr>)
                           = Inr False)
                   \<and> check_collision E (s\<lparr>current_pos := (fst (current_pos s) + k + 1, snd (current_pos s))\<rparr>)
                       = Inr True"
        if "r = Inr (cs, d')" for cs d'
      proof -
        from spec that obtain k where k0: "0 \<le> k" "d' = d + 1 + k"
          and k1: "cs = ?t\<lparr>current_pos := (fst (current_pos ?t) + k, snd (current_pos ?t))\<rparr>"
          and k2: "\<forall>j. 1 \<le> j \<and> j \<le> k \<longrightarrow>
              check_collision E (?t\<lparr>current_pos := (fst (current_pos ?t) + j, snd (current_pos ?t))\<rparr>) = Inr False"
          and k3: "check_collision E (?t\<lparr>current_pos := (fst (current_pos ?t) + (k + 1), snd (current_pos ?t))\<rparr>) = Inr True"
          by (auto simp: add.assoc)
        note k = k0 k1[unfolded pos] k2[unfolded pos] k3[unfolded pos]
        have below: "check_collision E (s\<lparr>current_pos := (fst (current_pos s) + j, snd (current_pos s))\<rparr>) = Inr False"
          if j: "1 \<le> j" "j \<le> k + 1" for j
        proof (cases "j = 1")
          case True
          then show ?thesis using free by (simp add: t)
        next
          case False
          then have "1 \<le> j - 1 \<and> j - 1 \<le> k" using j by simp
          with k(4) have "check_collision E (s\<lparr>current_pos := (fst (current_pos s) + (j - 1 + 1), snd (current_pos s))\<rparr>) = Inr False"
            by blast
          then show ?thesis by simp
        qed
        show ?thesis
        proof (intro exI[of _ "k + 1"] conjI)
          show "0 \<le> k + 1" using k(1) by simp
          show "d' = d + (k + 1)" using k(2) by simp
          show "cs = s\<lparr>current_pos := (fst (current_pos s) + (k + 1), snd (current_pos s))\<rparr>"
            by (rule k(3))
          show "\<forall>j. 1 \<le> j \<and> j \<le> k + 1 \<longrightarrow>
                  check_collision E (s\<lparr>current_pos := (fst (current_pos s) + j, snd (current_pos s))\<rparr>) = Inr False"
            using below by blast
          show "check_collision E (s\<lparr>current_pos := (fst (current_pos s) + (k + 1) + 1, snd (current_pos s))\<rparr>) = Inr True"
            using k(5) by (simp add: add.assoc)
        qed
      qed
      moreover have "board_fits E (board s) \<longrightarrow> (\<exists>cs d'. r = Inr (cs, d'))"
        using fits by (simp add: t)
      ultimately show ?thesis
        using r unfold by simp
    qed
  qed
qed

subsection \<open>Hard drop\<close>

lemma open_state_hard_drop:
  "hard_drop open_engine open_state =
     Some (Inr (\<lparr> board = [[None, None, None, None], [None, None, None, None],
                          [None, Some ''O'', Some ''O'', None],
                          [Some ''Z'', Some ''O'', Some ''O'', None]],
                  current_piece = None, current_pos = (0, 3), current_rotation = 0,
                  score = 42, lines_cleared = 3, game_over = False, move_count = 7 \<rparr>,
                Some [(''action'', VStr ''HARD_DROP''), (''from'', VTuple 1 1),
                      (''to'', VTuple 2 1), (''drop_distance'', VInt 1),
                      (''bonus_points'', VInt 2)]))"
  unfolding open_engine_def open_state_def by code_simp

lemma open_state_fits: "board_fits open_engine (board open_state)"
  by (simp add: board_fits_def open_engine_def open_state_def)

text \<open>
  C5. On a state with an active piece and the game running, \<open>hard_drop\<close> ends; on a board
  of the engine's size it returns a state and an event. Whenever it returns a state, there
  is a drop distance \<open>k \<ge> 0\<close> such that the positions \<open>1\<close> to \<open>k\<close> rows further down do not
  collide and the position \<open>k + 1\<close> rows down collides, the returned state is the result of
  \<open>_lock_piece\<close> at the position \<open>k\<close> rows down with \<open>k * 2\<close> added to its score, and the
  event reports \<open>k\<close> as the drop distance and \<open>k * 2\<close> as the bonus.
\<close>

theorem hard_drop_rests_and_scores:
  assumes "current_piece s = Some p" and "\<not> game_over s"
  shows "\<exists>r. hard_drop E s = Some r
           \<and> (board_fits E (board s) \<longrightarrow> (\<exists>s' ev. r = Inr (s', ev)))
           \<and> (\<forall>s' ev. r = Inr (s', ev) \<longrightarrow>
                (\<exists>k locked lock_event.
                     0 \<le> k
                   \<and> (\<forall>j. 1 \<le> j \<and> j \<le> k \<longrightarrow>
                         check_collision E (s\<lparr>current_pos := (fst (current_pos s) + j, snd (current_pos s))\<rparr>)
                           = Inr False)
                   \<and> check_collision E (s\<lparr>current_pos := (fst (current_pos s) + k + 1, snd (current_pos s))\<rparr>)
                       = Inr True
                   \<and> lock_piece E (s\<lparr>current_pos := (fst (current_pos s) + k, snd (current_pos s))\<rparr>)
                       = Inr (locked, lock_event)
                   \<and> s' = locked\<lparr>score := score locked + k * 2\<rparr>
                   \<and> ev = Some [(''action'', VStr ''HARD_DROP''),
                                 (''from'', VTuple (fst (current_pos s)) (snd (current_pos s))),
                                 (''to'', VTuple (fst (current_pos s) + k) (snd (current_pos s))),
                                 (''drop_distance'', VInt k),
                                 (''bonus_points'', VInt (k * 2))]))"
proof -
  from drop_loop_result[OF assms(1), of E 0] obtain r0 where
    loop: "drop_loop E s 0 = Some r0" and
    fits: "board_fits E (board s) \<longrightarrow> (\<exists>cs d'. r0 = Inr (cs, d'))" and
    spec: "\<forall>cs d'. r0 = Inr (cs, d') \<longrightarrow>
                (\<exists>k. 0 \<le> k \<and> d' = 0 + k
                   \<and> cs = s\<lparr>current_pos := (fst (current_pos s) + k, snd (current_pos s))\<rparr>
                   \<and> (\<forall>j. 1 \<le> j \<and> j \<le> k \<longrightarrow>
                         check_collision E (s\<lparr>current_pos := (fst (current_pos s) + j, snd (current_pos s))\<rparr>)
                           = Inr False)
                   \<and> check_collision E (s\<lparr>current_pos := (fst (current_pos s) + k + 1, snd (current_pos s))\<rparr>)
                       = Inr True)"
    by blast
  show ?thesis
  proof (cases r0)
    case (Inl e)
    then have "hard_drop E s = Some (Inl e)"
      using assms loop by (simp add: hard_drop_def)
    moreover have "\<not> board_fits E (board s)" using fits Inl by simp
    ultimately show ?thesis by simp
  next
    case (Inr pair)
    obtain cs d where pair: "pair = (cs, d)" by (cases pair)
    from spec Inr pair obtain k where k: "0 \<le> k" "d = k"
      "cs = s\<lparr>current_pos := (fst (current_pos s) + k, snd (current_pos s))\<rparr>"
      "\<forall>j. 1 \<le> j \<and> j \<le> k \<longrightarrow>
         check_collision E (s\<lparr>current_pos := (fst (current_pos s) + j, snd (current_pos s))\<rparr>) = Inr False"
      "check_collision E (s\<lparr>current_pos := (fst (current_pos s) + k + 1, snd (current_pos s))\<rparr>) = Inr True"
      by auto
    have csp: "current_piece cs = Some p" "board cs = board s" "current_pos cs = (fst (current_pos s) + k, snd (current_pos s))"
      using k(3) assms(1) by simp_all
    show ?thesis
    proof (cases "lock_piece E cs")
      case (Inl e)
      then have "hard_drop E s = Some (Inl e)"
        using assms loop Inr pair by (simp add: hard_drop_def)
      moreover have "\<not> board_fits E (board s)"
        using Inl lock_piece_total[of E cs p] csp by auto
      ultimately show ?thesis by simp
    next
      case lock: (Inr res)
      obtain locked lock_event where res: "res = (locked, lock_event)" by (cases res)
      have run: "hard_drop E s =
                   Some (Inr (locked\<lparr>score := score locked + k * 2\<rparr>,
                              Some [(''action'', VStr ''HARD_DROP''),
                                    (''from'', VTuple (fst (current_pos s)) (snd (current_pos s))),
                                    (''to'', VTuple (fst (current_pos s) + k) (snd (current_pos s))),
                                    (''drop_distance'', VInt k),
                                    (''bonus_points'', VInt (k * 2))]))"
        using assms loop Inr pair lock res k(2) csp(3) by (simp add: hard_drop_def)
      have "lock_piece E (s\<lparr>current_pos := (fst (current_pos s) + k, snd (current_pos s))\<rparr>)
              = Inr (locked, lock_event)"
        using lock res k(3) by simp
      with k(1,4,5) run show ?thesis by auto
    qed
  qed
qed

theorem hard_drop_rests_and_scores_witness:
  "current_piece open_state = Some Tet_O \<and> \<not> game_over open_state
   \<and> board_fits open_engine (board open_state)
   \<and> hard_drop open_engine open_state =
       Some (Inr (\<lparr> board = [[None, None, None, None], [None, None, None, None],
                            [None, Some ''O'', Some ''O'', None],
                            [Some ''Z'', Some ''O'', Some ''O'', None]],
                    current_piece = None, current_pos = (0, 3), current_rotation = 0,
                    score = 42, lines_cleared = 3, game_over = False, move_count = 7 \<rparr>,
                  Some [(''action'', VStr ''HARD_DROP''), (''from'', VTuple 1 1),
                        (''to'', VTuple 2 1), (''drop_distance'', VInt 1),
                        (''bonus_points'', VInt 2)]))
   \<and> (\<exists>k locked lock_event.
           0 \<le> k
         \<and> (\<forall>j. 1 \<le> j \<and> j \<le> k \<longrightarrow>
               check_collision open_engine
                 (open_state\<lparr>current_pos := (fst (current_pos open_state) + j, snd (current_pos open_state))\<rparr>)
                 = Inr False)
         \<and> check_collision open_engine
               (open_state\<lparr>current_pos := (fst (current_pos open_state) + k + 1, snd (current_pos open_state))\<rparr>)
             = Inr True
         \<and> lock_piece open_engine
               (open_state\<lparr>current_pos := (fst (current_pos open_state) + k, snd (current_pos open_state))\<rparr>)
             = Inr (locked, lock_event)
         \<and> score locked + k * 2 = 42)"
proof -
  let ?S = "\<lparr> board = [[None, None, None, None], [None, None, None, None],
                       [None, Some ''O'', Some ''O'', None],
                       [Some ''Z'', Some ''O'', Some ''O'', None]],
               current_piece = None, current_pos = (0, 3), current_rotation = 0,
               score = 42, lines_cleared = 3, game_over = False, move_count = 7 \<rparr>"
  let ?EV = "Some [(''action'', VStr ''HARD_DROP''), (''from'', VTuple 1 1),
                   (''to'', VTuple 2 1), (''drop_distance'', VInt 1),
                   (''bonus_points'', VInt 2)]"
  have piece: "current_piece open_state = Some Tet_O" and live: "\<not> game_over open_state"
    by (simp_all add: open_state_def)
  from hard_drop_rests_and_scores [OF piece live, of open_engine]
  obtain r where r: "hard_drop open_engine open_state = Some r"
    and sp: "\<forall>s' ev. r = Inr (s', ev) \<longrightarrow>
                (\<exists>k locked lock_event.
                     0 \<le> k
                   \<and> (\<forall>j. 1 \<le> j \<and> j \<le> k \<longrightarrow>
                         check_collision open_engine
                           (open_state\<lparr>current_pos := (fst (current_pos open_state) + j, snd (current_pos open_state))\<rparr>)
                           = Inr False)
                   \<and> check_collision open_engine
                         (open_state\<lparr>current_pos := (fst (current_pos open_state) + k + 1, snd (current_pos open_state))\<rparr>)
                       = Inr True
                   \<and> lock_piece open_engine
                         (open_state\<lparr>current_pos := (fst (current_pos open_state) + k, snd (current_pos open_state))\<rparr>)
                       = Inr (locked, lock_event)
                   \<and> s' = locked\<lparr>score := score locked + k * 2\<rparr>
                   \<and> ev = Some [(''action'', VStr ''HARD_DROP''),
                                 (''from'', VTuple (fst (current_pos open_state)) (snd (current_pos open_state))),
                                 (''to'', VTuple (fst (current_pos open_state) + k) (snd (current_pos open_state))),
                                 (''drop_distance'', VInt k),
                                 (''bonus_points'', VInt (k * 2))])"
    by blast
  have "r = Inr (?S, ?EV)"
    using r open_state_hard_drop by simp
  from sp[rule_format, OF this]
  obtain k locked lock_event where k:
    "0 \<le> k"
    "\<forall>j. 1 \<le> j \<and> j \<le> k \<longrightarrow>
       check_collision open_engine
         (open_state\<lparr>current_pos := (fst (current_pos open_state) + j, snd (current_pos open_state))\<rparr>)
         = Inr False"
    "check_collision open_engine
       (open_state\<lparr>current_pos := (fst (current_pos open_state) + k + 1, snd (current_pos open_state))\<rparr>)
       = Inr True"
    "lock_piece open_engine
       (open_state\<lparr>current_pos := (fst (current_pos open_state) + k, snd (current_pos open_state))\<rparr>)
       = Inr (locked, lock_event)"
    and S: "?S = locked\<lparr>score := score locked + k * 2\<rparr>"
    by blast
  have "score ?S = score (locked\<lparr>score := score locked + k * 2\<rparr>)"
    by (rule arg_cong[OF S])
  then have "score locked + k * 2 = 42" by simp
  with k have "\<exists>k locked lock_event.
           0 \<le> k
         \<and> (\<forall>j. 1 \<le> j \<and> j \<le> k \<longrightarrow>
               check_collision open_engine
                 (open_state\<lparr>current_pos := (fst (current_pos open_state) + j, snd (current_pos open_state))\<rparr>)
                 = Inr False)
         \<and> check_collision open_engine
               (open_state\<lparr>current_pos := (fst (current_pos open_state) + k + 1, snd (current_pos open_state))\<rparr>)
             = Inr True
         \<and> lock_piece open_engine
               (open_state\<lparr>current_pos := (fst (current_pos open_state) + k, snd (current_pos open_state))\<rparr>)
             = Inr (locked, lock_event)
         \<and> score locked + k * 2 = 42"
    by blast
  then show ?thesis
    using piece live open_state_fits open_state_hard_drop by (intro conjI)
qed

subsection \<open>The score never decreases\<close>

lemma points_get_nonneg: "0 \<le> points_get n"
  by (simp add: points_get_def)

lemma lock_piece_score_mono: "lock_piece E s = Inr (s', ev) \<Longrightarrow> score s \<le> score s'"
  using points_get_nonneg
  by (auto simp: lock_piece_def Let_def split: sum.splits option.splits)

lemma spawn_piece_score: "spawn_piece E piece s = Inr (s', ev) \<Longrightarrow> score s' = score s"
  by (auto simp: spawn_piece_def Let_def split: sum.splits if_splits)

lemma move_score_mono: "move E s a = Inr (s', ev) \<Longrightarrow> score s \<le> score s'"
  by (auto simp: move_def Let_def split: sum.splits if_splits option.splits bool.splits
           dest: lock_piece_score_mono)

lemma rotate_score: "rotate E s cw = Inr (s', ev) \<Longrightarrow> score s' = score s"
  by (auto simp: rotate_def Let_def split: sum.splits if_splits bool.splits)

lemma hard_drop_score_mono:
  assumes "hard_drop E s = Some (Inr (s', ev))"
  shows "score s \<le> score s'"
proof (cases "current_piece s = None \<or> game_over s")
  case True
  with assms show ?thesis by (simp add: hard_drop_def)
next
  case False
  then obtain p where p: "current_piece s = Some p" by auto
  from False assms obtain cs d locked lev where
    loop: "drop_loop E s 0 = Some (Inr (cs, d))" and
    lock: "lock_piece E cs = Inr (locked, lev)" and
    s': "s' = locked\<lparr>score := score locked + d * 2\<rparr>"
    by (auto simp: hard_drop_def Let_def split: option.splits sum.splits)
  from drop_loop_result[OF p, of E 0] loop obtain k where
    k: "0 \<le> k" "d = 0 + k" "cs = s\<lparr>current_pos := (fst (current_pos s) + k, snd (current_pos s))\<rparr>"
    by auto
  have "score cs = score s" using k(3) by simp
  moreover have "score cs \<le> score locked" using lock by (rule lock_piece_score_mono)
  ultimately show ?thesis using s' k by simp
qed

lemma run_call_score_mono: "run_call E s c = Some (Inr s') \<Longrightarrow> score s \<le> score s'"
proof (cases c)
  case (CallSpawn piece)
  assume "run_call E s c = Some (Inr s')"
  with CallSpawn show ?thesis
    by (cases "spawn_piece E piece s") (auto dest: spawn_piece_score)
next
  case (CallMove a)
  assume "run_call E s c = Some (Inr s')"
  with CallMove show ?thesis
    by (cases "move E s a") (auto dest: move_score_mono)
next
  case (CallRotate cw)
  assume "run_call E s c = Some (Inr s')"
  with CallRotate show ?thesis
    by (cases "rotate E s cw") (auto dest: rotate_score)
next
  case CallHardDrop
  assume "run_call E s c = Some (Inr s')"
  with CallHardDrop obtain r where "hard_drop E s = Some r" "map_sum id fst r = Inr s'"
    by auto
  then show ?thesis
    by (cases r) (auto dest: hard_drop_score_mono)
next
  case CallLock
  assume "run_call E s c = Some (Inr s')"
  with CallLock show ?thesis
    by (cases "lock_piece E s") (auto dest: lock_piece_score_mono)
qed

lemma run_calls_score_mono: "run_calls E s cs = Some (Inr s') \<Longrightarrow> score s \<le> score s'"
proof (induction cs arbitrary: s)
  case Nil
  then show ?case by simp
next
  case (Cons c cs)
  then obtain t where t: "run_call E s c = Some (Inr t)" "run_calls E t cs = Some (Inr s')"
    by (auto split: option.splits sum.splits)
  from run_call_score_mono[OF t(1)] Cons.IH[OF t(2)] show ?case by simp
qed

lemma sample_runs:
  "\<not> isl (spawn_piece open_engine Tet_I open_state)"
  "\<not> isl (move open_engine open_state MOVE_DOWN)"
  "\<not> isl (rotate open_engine open_state True)"
  "\<not> isl (lock_piece open_engine open_state)"
  "(case hard_drop open_engine open_state of Some (Inr x) \<Rightarrow> True | _ \<Rightarrow> False)"
  "(case run_calls open_engine open_state [CallMove MOVE_LEFT, CallHardDrop] of Some (Inr x) \<Rightarrow> True | _ \<Rightarrow> False)"
  "(case run_calls standard_engine (new_game 20 10) sample_calls of Some (Inr x) \<Rightarrow> score x = 36 | _ \<Rightarrow> False)"
  unfolding open_engine_def open_state_def standard_engine_def sample_calls_def
  by code_simp+

text \<open>
  C10. Whenever \<open>spawn_piece\<close>, \<open>move\<close>, \<open>rotate\<close>, \<open>hard_drop\<close> or \<open>_lock_piece\<close> returns a
  state, its score is at least the score of the input state. Hence the score at the end of
  any run of engine calls is at least the score at its start, and not negative when the
  run starts from \<open>new_game\<close>.
\<close>

theorem score_never_decreases:
  "(spawn_piece E piece s = Inr (s1, e1) \<longrightarrow> score s \<le> score s1)
   \<and> (move E s a = Inr (s2, e2) \<longrightarrow> score s \<le> score s2)
   \<and> (rotate E s cw = Inr (s3, e3) \<longrightarrow> score s \<le> score s3)
   \<and> (hard_drop E s = Some (Inr (s4, e4)) \<longrightarrow> score s \<le> score s4)
   \<and> (lock_piece E s = Inr (s5, e5) \<longrightarrow> score s \<le> score s5)
   \<and> (run_calls E s cs = Some (Inr s6) \<longrightarrow> score s \<le> score s6)
   \<and> (run_calls E (new_game r n) cs = Some (Inr s7) \<longrightarrow> 0 \<le> score s7)"
  using spawn_piece_score[of E piece s s1 e1] move_score_mono[of E s a s2 e2]
        rotate_score[of E s cw s3 e3] hard_drop_score_mono[of E s s4 e4]
        lock_piece_score_mono[of E s s5 e5] run_calls_score_mono[of E s cs s6]
        run_calls_score_mono[of E "new_game r n" cs s7]
  by (simp add: new_game_def)

theorem score_never_decreases_witness:
  "(\<exists>s1 e1. spawn_piece open_engine Tet_I open_state = Inr (s1, e1) \<and> score open_state \<le> score s1)
   \<and> (\<exists>s2 e2. move open_engine open_state MOVE_DOWN = Inr (s2, e2) \<and> score open_state \<le> score s2)
   \<and> (\<exists>s3 e3. rotate open_engine open_state True = Inr (s3, e3) \<and> score open_state \<le> score s3)
   \<and> (\<exists>s4 e4. hard_drop open_engine open_state = Some (Inr (s4, e4)) \<and> score open_state \<le> score s4)
   \<and> (\<exists>s5 e5. lock_piece open_engine open_state = Inr (s5, e5) \<and> score open_state \<le> score s5)
   \<and> (\<exists>s6. run_calls open_engine open_state [CallMove MOVE_LEFT, CallHardDrop] = Some (Inr s6)
            \<and> score open_state \<le> score s6)
   \<and> (\<exists>s7. run_calls standard_engine (new_game 20 10) sample_calls = Some (Inr s7) \<and> 0 \<le> score s7)"
proof -
  obtain s1 e1 where h1: "spawn_piece open_engine Tet_I open_state = Inr (s1, e1)"
    using sample_runs(1) by (cases "spawn_piece open_engine Tet_I open_state") auto
  obtain s2 e2 where h2: "move open_engine open_state MOVE_DOWN = Inr (s2, e2)"
    using sample_runs(2) by (cases "move open_engine open_state MOVE_DOWN") auto
  obtain s3 e3 where h3: "rotate open_engine open_state True = Inr (s3, e3)"
    using sample_runs(3) by (cases "rotate open_engine open_state True") auto
  obtain s5 e5 where h5: "lock_piece open_engine open_state = Inr (s5, e5)"
    using sample_runs(4) by (cases "lock_piece open_engine open_state") auto
  obtain s4 e4 where h4: "hard_drop open_engine open_state = Some (Inr (s4, e4))"
    using sample_runs(5) by (auto split: option.splits sum.splits)
  obtain s6 where h6: "run_calls open_engine open_state [CallMove MOVE_LEFT, CallHardDrop] = Some (Inr s6)"
    using sample_runs(6) by (auto split: option.splits sum.splits)
  obtain s7 where h7: "run_calls standard_engine (new_game 20 10) sample_calls = Some (Inr s7)"
    using sample_runs(7) by (auto split: option.splits sum.splits)
  show ?thesis
    using score_never_decreases [of open_engine Tet_I open_state s1 e1 MOVE_DOWN s2 e2 True s3 e3
                                    s4 e4 s5 e5 "[CallMove MOVE_LEFT, CallHardDrop]" s6]
          score_never_decreases [of standard_engine Tet_I "new_game 20 10" _ _ MOVE_DOWN _ _ True _ _
                                    _ _ _ _ sample_calls _ 20 10 s7]
          h1 h2 h3 h4 h5 h6 h7
    by simp
qed

section \<open>Properties of the validator\<close>

subsection \<open>Line clears\<close>

lemma points_get_canonical: "points_get n = canonical_points n"
  by (simp add: points_get_def canonical_points_def)

lemma str_750: "str_int 750 = ''750''" "str_int 800 = ''800''" "str_int 4 = ''4''"
  by (simp_all add: str_int_def str_nat.simps)

text \<open>
  C3. \<open>validate_line_clear\<close> returns a result with \<open>approved = False\<close> if and only if
  \<open>points_earned\<close> differs from the canonical table value for \<open>lines_cleared\<close>; in that
  case it returns, and the result's \<open>penalty_points\<close> is the submitted \<open>points_earned\<close>.
  For 4 lines and 750 points the result is the rejection with the mismatch reason and
  penalty 750, for every history and every set of limits.
\<close>

theorem validate_line_clear_mismatch:
  "((\<exists>r. validate_line_clear P n pts h = Inr r \<and> \<not> approved r) \<longleftrightarrow> pts \<noteq> canonical_points n)
   \<and> (pts \<noteq> canonical_points n \<longrightarrow>
         (\<exists>r. validate_line_clear P n pts h = Inr r \<and> \<not> approved r \<and> penalty_points r = pts))
   \<and> validate_line_clear P 4 750 h
        = Inr \<lparr> approved = False,
                reason = Some ''Invalid scoring: 4 lines should give 800 points, got 750'',
                penalty_points = 750,
                warning = None \<rparr>"
proof -
  have rej: "pts \<noteq> canonical_points n \<Longrightarrow>
               \<exists>r. validate_line_clear P n pts h = Inr r \<and> \<not> approved r \<and> penalty_points r = pts"
    by (simp add: validate_line_clear_def points_get_canonical)
  have acc: "pts = canonical_points n \<Longrightarrow> validate_line_clear P n pts h = Inr r \<Longrightarrow> approved r" for r
    by (auto simp: validate_line_clear_def points_get_canonical split: sum.splits if_splits)
  have ex: "validate_line_clear P 4 750 h
        = Inr \<lparr> approved = False,
                reason = Some ''Invalid scoring: 4 lines should give 800 points, got 750'',
                penalty_points = 750,
                warning = None \<rparr>"
    by (simp add: validate_line_clear_def points_get_def str_750)
  from rej acc ex show ?thesis by blast
qed

theorem validate_line_clear_mismatch_witness:
  "(750::int) \<noteq> canonical_points 4
   \<and> (\<exists>r. validate_line_clear competitive_mode 4 750 [] = Inr r \<and> \<not> approved r \<and> penalty_points r = 750)"
proof -
  have h: "(750::int) \<noteq> canonical_points 4"
    by (simp add: canonical_points_def)
  show ?thesis
    using validate_line_clear_mismatch [of competitive_mode 4 750 "[]"] h by blast
qed

subsection \<open>Backtracks made of rotations\<close>

text \<open>
  C6. The claim fails on the code for rotations. After a spawn and the rotations
  clockwise, counter-clockwise, clockwise, counter-clockwise, a proposed clockwise
  rotation is the opposite of the preceding action, and the recent history holds three
  opposite-pair transitions, the default limit. \<open>_count_backtrack_moves\<close> pairs only the
  two horizontal moves, counts none of them, and \<open>validate_move\<close> approves. The scenario of
  the claim holds: in competitive mode a move right after a single move left is rejected
  with penalty 15.
\<close>

theorem rotation_backtracks_not_counted:
  "is_backtrack_move ''ROTATE_CW'' rotation_history = Inr True
   \<and> claimed_backtrack_count rotation_history = 3
   \<and> max_backtrack_moves default_policies = 3
   \<and> count_backtrack_moves rotation_history = Inr 0
   \<and> validate_move default_policies ''ROTATE_CW''
        [(''score'', VInt 0), (''lines_cleared'', VInt 0), (''move_count'', VInt 4)]
        rotation_history
      = Inr \<lparr> approved = True, reason = None, penalty_points = 0, warning = None \<rparr>
   \<and> validate_move competitive_mode ''MOVE_RIGHT''
        [(''score'', VInt 0), (''lines_cleared'', VInt 0), (''move_count'', VInt 1)]
        [[(''stage'', VStr ''game_action''), (''action'', VStr ''MOVE_LEFT''),
          (''from'', VTuple 0 3), (''to'', VTuple 0 2), (''move_number'', VInt 1)]]
      = Inr \<lparr> approved = False, reason = Some ''Backtrack limit exceeded (0)'',
               penalty_points = 15, warning = None \<rparr>"
  unfolding rotation_history_def default_policies_def competitive_mode_def by code_simp

section \<open>Properties of the agent\<close>

subsection \<open>A fresh session\<close>

lemma fresh_spawn:
  "spawn_piece standard_engine Tet_O (new_game 20 10) =
     Inr (fresh_state,
          [(''action'', VStr ''SPAWN_PIECE''), (''piece'', VStr ''O''),
           (''position'', VTuple 0 3), (''game_over'', VBool False)])"
  unfolding standard_engine_def fresh_state_def by code_simp

lemma start_game_fresh:
  "start_game demo_agent (\<lambda>_. []) ''game-session-001'' Tet_O = Inr (fresh_store, fresh_execution)"
  using fresh_spawn
  by (simp add: start_game_def demo_agent_def TetrisAgent_init_def standard_engine_def
                spawn_payload_def py_getitem_def dict_get_def append_event_safe_def
                fresh_store_def fresh_execution_def start_event_def)

lemma fresh_history: "history_payloads fresh_store fresh_execution = [payload start_event]"
  by (simp add: history_payloads_def get_execution_def fresh_store_def fresh_execution_def)

lemma fresh_snapshot:
  "current_state_dict fresh_execution
     = [(''score'', VInt 0), (''lines_cleared'', VInt 0), (''move_count'', VInt 0)]"
  by (simp add: current_state_dict_def fresh_execution_def fresh_state_def)

lemma fresh_validate:
  "validate_move default_policies ''HARD_DROP''
     [(''score'', VInt 0), (''lines_cleared'', VInt 0), (''move_count'', VInt 0)]
     [payload start_event]
   = Inr \<lparr> approved = True, reason = None, penalty_points = 0, warning = None \<rparr>"
  "validate_move default_policies ''LINE_CLEAR''
     [(''score'', VInt 0), (''lines_cleared'', VInt 0), (''move_count'', VInt 0)]
     [payload start_event]
   = Inr \<lparr> approved = True, reason = None, penalty_points = 0, warning = None \<rparr>"
  unfolding default_policies_def start_event_def by code_simp+

lemma fresh_hard_drop:
  "hard_drop standard_engine fresh_state = Some (Inr (dropped_state, Some drop_payload))"
  unfolding standard_engine_def fresh_state_def dropped_state_def drop_payload_def by code_simp

subsection \<open>Hard drop in a session\<close>

text \<open>
  Whenever \<open>execute_action\<close> returns the event of a hard drop, the session is left without
  an active piece and the log has gained exactly the hard-drop event: no spawn follows.
\<close>

lemma lock_piece_no_piece: "lock_piece E s = Inr (s', ev) \<Longrightarrow> current_piece s' = None"
  by (auto simp: lock_piece_def Let_def split: sum.splits option.splits)

lemma hard_drop_event:
  assumes "hard_drop E s = Some (Inr (s', Some ev))"
  shows "py_get ev ''action'' = VStr ''HARD_DROP'' \<and> current_piece s' = None"
proof (cases "current_piece s = None \<or> game_over s")
  case True
  with assms show ?thesis by (simp add: hard_drop_def)
next
  case False
  then have run: "hard_drop E s =
      (case drop_loop E s 0 of
         None \<Rightarrow> None
       | Some (Inl e) \<Rightarrow> Some (Inl e)
       | Some (Inr (current_state, drop_distance)) \<Rightarrow>
           (case lock_piece E current_state of
              Inl e \<Rightarrow> Some (Inl e)
            | Inr (locked_state, lock_event) \<Rightarrow>
                Some (Inr (locked_state\<lparr>score := score locked_state + drop_distance * 2\<rparr>,
                           Some [(''action'', VStr ''HARD_DROP''),
                                 (''from'', VTuple (fst (current_pos s)) (snd (current_pos s))),
                                 (''to'', VTuple (fst (current_pos current_state)) (snd (current_pos current_state))),
                                 (''drop_distance'', VInt drop_distance),
                                 (''bonus_points'', VInt (drop_distance * 2))]))))"
    by (auto simp: hard_drop_def Let_def split: option.splits sum.splits)
  from assms[unfolded run] obtain cs d locked lev where
    lock: "lock_piece E cs = Inr (locked, lev)" and
    s': "s' = locked\<lparr>score := score locked + d * 2\<rparr>" and
    ev: "ev = [(''action'', VStr ''HARD_DROP''),
               (''from'', VTuple (fst (current_pos s)) (snd (current_pos s))),
               (''to'', VTuple (fst (current_pos cs)) (snd (current_pos cs))),
               (''drop_distance'', VInt d),
               (''bonus_points'', VInt (d * 2))]"
    by (auto split: option.splits sum.splits)
  have "py_get ev ''action'' = VStr ''HARD_DROP''"
    unfolding ev by (simp add: py_get_def dict_get_def)
  moreover have "current_piece s' = None"
    using lock_piece_no_piece[OF lock] s' by simp
  ultimately show ?thesis by simp
qed

lemma commit_keeps_event:
  assumes "commit_transition A store ex history pr0 np ns ev0 = Inr (store', ex', pr, Some ev)"
  shows "ev0 = Some ev"
proof (cases ev0)
  case None
  with assms show ?thesis by (simp add: commit_transition_def)
next
  case (Some e)
  with assms show ?thesis
    by (auto simp: commit_transition_def split: sum.splits option.splits if_splits prod.splits)
qed

lemma commit_without_lock:
  assumes "commit_transition A store ex history pr0 np ns (Some ev) = Inr (store', ex', pr, out)"
    and "py_get ev ''action'' = VStr ''HARD_DROP''"
  shows "append_event_safe store (tenant_id ex) (execution_id ex) RUNNING
           (dict_merge [(''stage'', VStr ''game_action''), (''action'', VStr ''HARD_DROP'')] ev) = Inr store'
       \<and> ex' = ex\<lparr>game_state := ns\<rparr>"
  using assms
  by (auto simp: commit_transition_def spawn_after_lock_def split: sum.splits)

lemma execute_hard_drop_no_spawn:
  assumes "execute_action A store ex HARD_DROP np = Some (Inr (store', ex', pr, Some ev))"
  shows "current_piece (game_state ex') = None
       \<and> get_execution store' (tenant_id ex) (execution_id ex)
           = get_execution store (tenant_id ex) (execution_id ex)
             @ [\<lparr> state = RUNNING,
                  payload = dict_merge [(''stage'', VStr ''game_action''), (''action'', VStr ''HARD_DROP'')] ev \<rparr>]"
proof -
  have run: "execute_action A store ex HARD_DROP np =
      (case validate_move (policy_validator ex) ''HARD_DROP'' (current_state_dict ex)
              (history_payloads store ex) of
         Inl e \<Rightarrow> Some (Inl e)
       | Inr policy_result \<Rightarrow>
           if \<not> approved policy_result then
             (case append_event_safe store (tenant_id ex) (execution_id ex) FAILED
                     [(''stage'', VStr ''policy_violation''),
                      (''action'', VStr ''HARD_DROP''),
                      (''reason'', (case reason policy_result of None \<Rightarrow> VNone | Some r \<Rightarrow> VStr r)),
                      (''penalty_points'', VInt (penalty_points policy_result))] of
                Inl e \<Rightarrow> Some (Inl e)
              | Inr st \<Rightarrow>
                  Some (Inr (st, ex\<lparr>game_state := (game_state ex)\<lparr>game_over := True\<rparr>\<rparr>,
                             policy_result, None)))
           else
             (case hard_drop (agent_engine A) (game_state ex) of
                None \<Rightarrow> None
              | Some (Inl e) \<Rightarrow> Some (Inl e)
              | Some (Inr (new_state, ev0)) \<Rightarrow>
                  Some (commit_transition A store ex (history_payloads store ex) policy_result np
                          new_state ev0)))"
    by (simp add: execute_action_def Let_def split: option.splits sum.splits)
  from assms[unfolded run] obtain pr0 ns ev0 where
    hd: "hard_drop (agent_engine A) (game_state ex) = Some (Inr (ns, ev0))" and
    ct: "commit_transition A store ex (history_payloads store ex) pr0 np ns ev0
           = Inr (store', ex', pr, Some ev)"
    by (auto split: sum.splits if_splits option.splits)
  have ev0: "ev0 = Some ev" using ct by (rule commit_keeps_event)
  from hard_drop_event[OF hd[unfolded ev0]] have
    act: "py_get ev ''action'' = VStr ''HARD_DROP''" and gone: "current_piece ns = None"
    by auto
  from commit_without_lock[OF ct[unfolded ev0] act] have
    ap: "append_event_safe store (tenant_id ex) (execution_id ex) RUNNING
           (dict_merge [(''stage'', VStr ''game_action''), (''action'', VStr ''HARD_DROP'')] ev) = Inr store'"
    and ex': "ex' = ex\<lparr>game_state := ns\<rparr>"
    by auto
  from ap have "store' (tenant_id ex, execution_id ex)
                  = store (tenant_id ex, execution_id ex)
                    @ [\<lparr> state = RUNNING,
                         payload = dict_merge [(''stage'', VStr ''game_action''), (''action'', VStr ''HARD_DROP'')] ev \<rparr>]"
    by (auto simp: append_event_safe_def split: if_splits)
  with ex' gone show ?thesis by (simp add: get_execution_def)
qed

text \<open>
  C2. The claim fails on the code for a hard drop. In the fresh session an approved
  \<open>HARD_DROP\<close> locks the piece in the two lowest rows. The event that \<open>hard_drop\<close> returns
  has the action \<open>HARD_DROP\<close>, not \<open>PIECE_LOCKED\<close>, so step 6 of \<open>execute_action\<close> does not
  spawn: the log gains the hard-drop event only and the session is left without an
  active piece.
\<close>

theorem hard_drop_spawns_nothing:
  "execute_action demo_agent fresh_store fresh_execution HARD_DROP Tet_T =
     Some (Inr (fresh_store((''player-001'', ''game-session-001'') := [start_event, drop_event]),
                fresh_execution\<lparr>game_state := dropped_state\<rparr>,
                \<lparr> approved = True, reason = None, penalty_points = 0, warning = None \<rparr>,
                Some drop_payload))
   \<and> current_piece dropped_state = None"
proof -
  have agent: "agent_engine demo_agent = standard_engine"
    by (simp add: demo_agent_def TetrisAgent_init_def standard_engine_def)
  have ex: "tenant_id fresh_execution = ''player-001''" "execution_id fresh_execution = ''game-session-001''"
    "game_state fresh_execution = fresh_state" "policy_validator fresh_execution = default_policies"
    by (simp_all add: fresh_execution_def)
  have log: "fresh_store (''player-001'', ''game-session-001'') = [start_event]"
    by (simp add: fresh_store_def)
  have tag: "state start_event = RUNNING" by (simp add: start_event_def)
  have merged: "\<lparr> state = RUNNING,
                   payload = dict_merge [(''stage'', VStr ''game_action''), (''action'', VStr ''HARD_DROP'')]
                                        drop_payload \<rparr>
                = drop_event"
    unfolding drop_payload_def drop_event_def by code_simp
  have act: "py_get drop_payload ''action'' = VStr ''HARD_DROP''"
    unfolding drop_payload_def by code_simp
  have "execute_action demo_agent fresh_store fresh_execution HARD_DROP Tet_T =
     Some (Inr (fresh_store((''player-001'', ''game-session-001'') := [start_event, drop_event]),
                fresh_execution\<lparr>game_state := dropped_state\<rparr>,
                \<lparr> approved = True, reason = None, penalty_points = 0, warning = None \<rparr>,
                Some drop_payload))"
    unfolding execute_action_def Let_def fresh_history fresh_snapshot ex agent
    by (simp add: fresh_validate fresh_hard_drop commit_transition_def spawn_after_lock_def
                  append_event_safe_def ex log tag merged act)
  then show ?thesis by (simp add: dropped_state_def)
qed

subsection \<open>Actions that are not player actions\<close>

lemma busy_validate:
  "validate_move default_policies ''LINE_CLEAR''
     [(''score'', VInt 0), (''lines_cleared'', VInt 0), (''move_count'', VInt 50)]
     (map payload busy_log)
   = Inr \<lparr> approved = False, reason = Some ''Max moves per piece exceeded (50)'',
            penalty_points = 50, warning = None \<rparr>"
  unfolding default_policies_def busy_log_def start_event_def by code_simp

lemma busy_history: "history_payloads busy_store busy_execution = map payload busy_log"
  by (simp add: history_payloads_def get_execution_def busy_store_def busy_execution_def
                fresh_execution_def)

lemma busy_snapshot:
  "current_state_dict busy_execution
     = [(''score'', VInt 0), (''lines_cleared'', VInt 0), (''move_count'', VInt 50)]"
  by (simp add: current_state_dict_def busy_execution_def fresh_execution_def fresh_state_def)

lemma busy_log_open: "\<not> list_ex (\<lambda>e. state e = FINALIZED) busy_log"
  unfolding busy_log_def start_event_def down_event_def cw_event_def spin_events_def
  by code_simp

text \<open>
  C8. The claim fails on the code: \<open>execute_action\<close> refuses an unknown action in the last
  branch of step 3, after \<open>validate_move\<close> has run in step 2. In the session with fifty
  moves on its piece, the action \<open>LINE_CLEAR\<close> reaches \<open>validate_move\<close>, which rejects it
  for the number of moves; a FAILED event is appended to the log and the game is marked
  over.
\<close>

theorem unknown_action_appends_event:
  "execute_action demo_agent busy_store busy_execution LINE_CLEAR Tet_T =
     Some (Inr (busy_store((''player-001'', ''game-session-001'') := busy_log @ [failed_event]),
                busy_execution\<lparr>game_state := (game_state busy_execution)\<lparr>game_over := True\<rparr>\<rparr>,
                \<lparr> approved = False, reason = Some ''Max moves per piece exceeded (50)'',
                  penalty_points = 50, warning = None \<rparr>,
                None))"
proof -
  have ex: "tenant_id busy_execution = ''player-001''" "execution_id busy_execution = ''game-session-001''"
    "policy_validator busy_execution = default_policies"
    by (simp_all add: busy_execution_def fresh_execution_def)
  have log: "busy_store (''player-001'', ''game-session-001'') = busy_log"
    by (simp add: busy_store_def)
  show ?thesis
    unfolding execute_action_def Let_def busy_history busy_snapshot ex
    by (simp add: busy_validate append_event_safe_def log busy_log_open failed_event_def)
qed

lemma table_get_values:
  "table_get [(''MOVE_LEFT'', ''MOVE_RIGHT''), (''MOVE_RIGHT'', ''MOVE_LEFT''),
              (''ROTATE_CW'', ''ROTATE_CCW''), (''ROTATE_CCW'', ''ROTATE_CW'')] v = Inr opp
   \<Longrightarrow> opp \<in> {VNone, VStr ''MOVE_RIGHT'', VStr ''MOVE_LEFT'', VStr ''ROTATE_CCW'', VStr ''ROTATE_CW''}"
  by (cases v) (auto split: if_splits)

lemma unknown_not_backtrack:
  assumes "action \<in> {SPAWN_PIECE, LINE_CLEAR, GAME_OVER}"
    and "is_backtrack_move (action_value action) history = Inr b"
  shows "\<not> b"
proof (cases "history = []")
  case True
  with assms(2) show ?thesis by (simp add: is_backtrack_move_def)
next
  case False
  with assms(2) obtain last_event opp where
    "table_get [(''MOVE_LEFT'', ''MOVE_RIGHT''), (''MOVE_RIGHT'', ''MOVE_LEFT''),
                (''ROTATE_CW'', ''ROTATE_CCW''), (''ROTATE_CCW'', ''ROTATE_CW'')]
       (py_get last_event ''action'') = Inr opp"
    and b: "b = py_eq opp (VStr (action_value action))"
    by (auto simp: is_backtrack_move_def split: sum.splits)
  from table_get_values[OF this(1)] b assms(1) show ?thesis by auto
qed

lemma unknown_validate:
  assumes "action \<in> {SPAWN_PIECE, LINE_CLEAR, GAME_OVER}"
  shows "(\<exists>pr. validate_move P (action_value action) snapshot history = Inr pr \<and> \<not> approved pr)
           \<longleftrightarrow> count_moves_for_current_piece history \<ge> max_moves_per_piece P"
proof
  assume "\<exists>pr. validate_move P (action_value action) snapshot history = Inr pr \<and> \<not> approved pr"
  then obtain pr where pr: "validate_move P (action_value action) snapshot history = Inr pr" "\<not> approved pr"
    by blast
  show "count_moves_for_current_piece history \<ge> max_moves_per_piece P"
  proof (rule ccontr)
    assume few: "\<not> count_moves_for_current_piece history \<ge> max_moves_per_piece P"
    have names: "action_value action \<notin> set [''ROTATE_CW'', ''ROTATE_CCW'']"
                "action_value action \<notin> set [''MOVE_LEFT'', ''MOVE_RIGHT'']"
      using assms by auto
    from pr(1) few names obtain b where
      "is_backtrack_move (action_value action) history = Inr b"
      by (auto simp: validate_move_def Let_def split: sum.splits if_splits)
    with unknown_not_backtrack[OF assms] have "is_backtrack_move (action_value action) history = Inr False"
      by auto
    with pr few names show False
      by (auto simp: validate_move_def Let_def split: if_splits)
  qed
next
  assume "count_moves_for_current_piece history \<ge> max_moves_per_piece P"
  then show "\<exists>pr. validate_move P (action_value action) snapshot history = Inr pr \<and> \<not> approved pr"
    by (simp add: validate_move_def Let_def)
qed

text \<open>
  The extent of the defect. For an action that is not a player action (\<open>SPAWN_PIECE\<close>,
  \<open>LINE_CLEAR\<close>, \<open>GAME_OVER\<close>): when \<open>validate_move\<close> approves, the call is refused as an
  unknown action with the log and the session unchanged, as the claim has it; when
  \<open>validate_move\<close> rejects, the FAILED event is appended and the game is marked over; and
  it rejects exactly when the moves recorded since the last spawn have reached
  \<open>max_moves_per_piece\<close>.
\<close>

lemma unknown_action_behaviour:
  assumes "action \<in> {SPAWN_PIECE, LINE_CLEAR, GAME_OVER}"
  shows
    "(\<forall>pr. validate_move (policy_validator ex) (action_value action) (current_state_dict ex)
              (history_payloads store ex) = Inr pr \<and> approved pr \<longrightarrow>
           execute_action A store ex action np =
             Some (Inr (store, ex,
                        \<lparr> approved = False, reason = Some ''Unknown action'',
                          penalty_points = 0, warning = None \<rparr>,
                        None)))
     \<and> (\<forall>pr. validate_move (policy_validator ex) (action_value action) (current_state_dict ex)
                (history_payloads store ex) = Inr pr \<and> \<not> approved pr \<longrightarrow>
           execute_action A store ex action np =
             (case append_event_safe store (tenant_id ex) (execution_id ex) FAILED
                     [(''stage'', VStr ''policy_violation''),
                      (''action'', VStr (action_value action)),
                      (''reason'', (case reason pr of None \<Rightarrow> VNone | Some r \<Rightarrow> VStr r)),
                      (''penalty_points'', VInt (penalty_points pr))] of
                Inl e \<Rightarrow> Some (Inl e)
              | Inr store' \<Rightarrow>
                  Some (Inr (store', ex\<lparr>game_state := (game_state ex)\<lparr>game_over := True\<rparr>\<rparr>,
                             pr, None))))
     \<and> ((\<exists>pr. validate_move (policy_validator ex) (action_value action) (current_state_dict ex)
                 (history_payloads store ex) = Inr pr \<and> \<not> approved pr)
          \<longleftrightarrow> count_moves_for_current_piece (history_payloads store ex)
                \<ge> max_moves_per_piece (policy_validator ex))"
proof (intro conjI allI impI)
  fix pr
  assume "validate_move (policy_validator ex) (action_value action) (current_state_dict ex)
            (history_payloads store ex) = Inr pr \<and> approved pr"
  then show "execute_action A store ex action np =
             Some (Inr (store, ex,
                        \<lparr> approved = False, reason = Some ''Unknown action'',
                          penalty_points = 0, warning = None \<rparr>,
                        None))"
    using assms by (auto simp: execute_action_def Let_def)
next
  fix pr
  assume "validate_move (policy_validator ex) (action_value action) (current_state_dict ex)
            (history_payloads store ex) = Inr pr \<and> \<not> approved pr"
  then show "execute_action A store ex action np =
             (case append_event_safe store (tenant_id ex) (execution_id ex) FAILED
                     [(''stage'', VStr ''policy_violation''),
                      (''action'', VStr (action_value action)),
                      (''reason'', (case reason pr of None \<Rightarrow> VNone | Some r \<Rightarrow> VStr r)),
                      (''penalty_points'', VInt (penalty_points pr))] of
                Inl e \<Rightarrow> Some (Inl e)
              | Inr store' \<Rightarrow>
                  Some (Inr (store', ex\<lparr>game_state := (game_state ex)\<lparr>game_over := True\<rparr>\<rparr>,
                             pr, None)))"
    by (simp add: execute_action_def Let_def)
next
  show "(\<exists>pr. validate_move (policy_validator ex) (action_value action) (current_state_dict ex)
                 (history_payloads store ex) = Inr pr \<and> \<not> approved pr)
          \<longleftrightarrow> count_moves_for_current_piece (history_payloads store ex)
                \<ge> max_moves_per_piece (policy_validator ex)"
    by (rule unknown_validate[OF assms])
qed

lemma fresh_unknown_action:
  "LINE_CLEAR \<in> {SPAWN_PIECE, LINE_CLEAR, GAME_OVER}
   \<and> validate_move (policy_validator fresh_execution) (action_value LINE_CLEAR)
         (current_state_dict fresh_execution) (history_payloads fresh_store fresh_execution)
       = Inr \<lparr> approved = True, reason = None, penalty_points = 0, warning = None \<rparr>
   \<and> execute_action demo_agent fresh_store fresh_execution LINE_CLEAR Tet_T =
       Some (Inr (fresh_store, fresh_execution,
                  \<lparr> approved = False, reason = Some ''Unknown action'',
                    penalty_points = 0, warning = None \<rparr>,
                  None))
   \<and> count_moves_for_current_piece (history_payloads fresh_store fresh_execution)
       < max_moves_per_piece (policy_validator fresh_execution)"
proof -
  have known: "LINE_CLEAR \<in> {SPAWN_PIECE, LINE_CLEAR, GAME_OVER}" by simp
  have val: "validate_move (policy_validator fresh_execution) (action_value LINE_CLEAR)
               (current_state_dict fresh_execution) (history_payloads fresh_store fresh_execution)
             = Inr \<lparr> approved = True, reason = None, penalty_points = 0, warning = None \<rparr>"
  proof -
    have "policy_validator fresh_execution = default_policies"
      by (simp add: fresh_execution_def)
    then show ?thesis
      by (simp add: fresh_history fresh_snapshot fresh_validate)
  qed
  note T = unknown_action_behaviour [OF known, of fresh_execution fresh_store demo_agent Tet_T]
  have run: "execute_action demo_agent fresh_store fresh_execution LINE_CLEAR Tet_T =
       Some (Inr (fresh_store, fresh_execution,
                  \<lparr> approved = False, reason = Some ''Unknown action'',
                    penalty_points = 0, warning = None \<rparr>,
                  None))"
    using T val by simp
  have "\<not> (\<exists>pr. validate_move (policy_validator fresh_execution) (action_value LINE_CLEAR)
                 (current_state_dict fresh_execution) (history_payloads fresh_store fresh_execution) = Inr pr
               \<and> \<not> approved pr)"
    using val by simp
  with T have "count_moves_for_current_piece (history_payloads fresh_store fresh_execution)
                 < max_moves_per_piece (policy_validator fresh_execution)"
    by simp
  with known val run show ?thesis by (intro conjI)
qed

end
